theory Spec2Isabelle
  imports Complex_Main
begin

section \<open>Cells, dates and tables\<close>

text \<open>
  A pandas float cell is a \<open>real option\<close>: \<open>Some x\<close> is the finite value \<open>x\<close> (rounding is
  not modelled, arithmetic is exact), \<open>None\<close> is a missing value (NaN). A division whose
  divisor is exactly zero gives a non-finite float in the source; it is \<open>None\<close> here.
  A date is a calendar triple (year, month, day).
\<close>

type_synonym cell = "real option"
type_synonym date = "nat \<times> nat \<times> nat"
type_synonym series = "date list \<times> cell list"

definition add_cell :: "cell \<Rightarrow> cell \<Rightarrow> cell" where
  "add_cell a b = (case a of None \<Rightarrow> None | Some x \<Rightarrow> (case b of None \<Rightarrow> None | Some y \<Rightarrow> Some (x + y)))"

definition sub_cell :: "cell \<Rightarrow> cell \<Rightarrow> cell" where
  "sub_cell a b = (case a of None \<Rightarrow> None | Some x \<Rightarrow> (case b of None \<Rightarrow> None | Some y \<Rightarrow> Some (x - y)))"

definition mul_cell :: "cell \<Rightarrow> cell \<Rightarrow> cell" where
  "mul_cell a b = (case a of None \<Rightarrow> None | Some x \<Rightarrow> (case b of None \<Rightarrow> None | Some y \<Rightarrow> Some (x * y)))"

definition div_cell :: "cell \<Rightarrow> cell \<Rightarrow> cell" where
  "div_cell a b = (case a of None \<Rightarrow> None | Some x \<Rightarrow>
     (case b of None \<Rightarrow> None | Some y \<Rightarrow> if y = 0 then None else Some (x / y)))"

text \<open>The non-missing values of a row or column, in order (\<open>dropna\<close>, \<open>skipna=True\<close>).\<close>

definition valid :: "cell list \<Rightarrow> real list" where
  "valid xs = map the (filter (\<lambda>x. x \<noteq> None) xs)"

definition cell_at :: "cell list \<Rightarrow> nat \<Rightarrow> cell" where
  "cell_at c i = (if i < length c then c ! i else None)"

text \<open>
  A DataFrame, column-major: \<open>fdata f ! j\<close> is the column named \<open>fcolumns f ! j\<close>, one cell
  per date of \<open>findex f\<close>.
\<close>

record frame =
  findex :: "date list"
  fcolumns :: "string list"
  fdata :: "cell list list"

definition wf_frame :: "frame \<Rightarrow> bool" where
  "wf_frame f = (length (fdata f) = length (fcolumns f) \<and>
                 list_all (\<lambda>c. length c = length (findex f)) (fdata f))"

definition row_of :: "cell list list \<Rightarrow> nat \<Rightarrow> cell list" where
  "row_of cols i = map (\<lambda>c. cell_at c i) cols"

text \<open>\<open>ffill\<close>: a missing cell takes the last non-missing value above it, if any.\<close>

fun ffill_from :: "cell \<Rightarrow> cell list \<Rightarrow> cell list" where
  "ffill_from prev [] = []"
| "ffill_from prev (x # xs) =
     (case x of None \<Rightarrow> prev # ffill_from prev xs | Some v \<Rightarrow> x # ffill_from x xs)"

definition ffill :: "cell list \<Rightarrow> cell list" where
  "ffill xs = ffill_from None xs"

text \<open>\<open>shift(k)\<close> moves every value \<open>k\<close> rows down and leaves \<open>k\<close> missing cells on top.\<close>

definition shift :: "nat \<Rightarrow> cell list \<Rightarrow> cell list" where
  "shift k xs = take (length xs) (replicate k None @ xs)"

text \<open>
  \<open>pct_change(periods)\<close> with its default \<open>fill_method='pad'\<close>: the column is forward-filled,
  then divided by its shifted self, minus one.
\<close>

definition pct_change :: "nat \<Rightarrow> cell list \<Rightarrow> cell list" where
  "pct_change periods xs =
     (let data = ffill xs; shifted = shift periods data
      in map2 (\<lambda>a b. sub_cell (div_cell a b) (Some 1)) data shifted)"

text \<open>\<open>sum(axis=1)\<close>: per date, the sum of the non-missing cells of the row (0 if none).\<close>

definition sum_axis1 :: "nat \<Rightarrow> cell list list \<Rightarrow> cell list" where
  "sum_axis1 n cols = map (\<lambda>i. Some (sum_list (valid (row_of cols i)))) [0..<n]"

text \<open>\<open>cumprod\<close> and \<open>cummax\<close> skip missing cells and leave them missing.\<close>

fun cumprod_from :: "real \<Rightarrow> cell list \<Rightarrow> cell list" where
  "cumprod_from acc [] = []"
| "cumprod_from acc (x # xs) =
     (case x of None \<Rightarrow> None # cumprod_from acc xs
      | Some v \<Rightarrow> Some (acc * v) # cumprod_from (acc * v) xs)"

definition cumprod :: "cell list \<Rightarrow> cell list" where
  "cumprod xs = cumprod_from 1 xs"

fun cummax_from :: "cell \<Rightarrow> cell list \<Rightarrow> cell list" where
  "cummax_from acc [] = []"
| "cummax_from acc (x # xs) =
     (case x of None \<Rightarrow> None # cummax_from acc xs
      | Some v \<Rightarrow> (let m = (case acc of None \<Rightarrow> v | Some a \<Rightarrow> max a v)
                   in Some m # cummax_from (Some m) xs))"

definition cummax :: "cell list \<Rightarrow> cell list" where
  "cummax xs = cummax_from None xs"

definition mean_skipna :: "cell list \<Rightarrow> cell" where
  "mean_skipna xs =
     (let vs = valid xs in if vs = [] then None else Some (sum_list vs / real (length vs)))"

text \<open>\<open>std\<close> is the sample standard deviation (\<open>ddof=1\<close>): missing below two observations.\<close>

definition std_skipna :: "cell list \<Rightarrow> cell" where
  "std_skipna xs =
     (let vs = valid xs; n = length vs
      in if n < 2 then None
         else (let m = sum_list vs / real n
               in Some (sqrt (sum_list (map (\<lambda>v. (v - m)\<^sup>2) vs) / real (n - 1)))))"

section \<open>The backtest engine (backtest.py)\<close>

record Backtest =
  prices :: frame
  weights :: frame
  benchmark_prices :: "series option"
  initial_capital :: real

definition index_intersection :: "date list \<Rightarrow> date list \<Rightarrow> date list" where
  "index_intersection a b = filter (\<lambda>d. d \<in> set b) a"

definition loc_rows :: "date list \<Rightarrow> date list \<Rightarrow> cell list \<Rightarrow> cell list" where
  "loc_rows keep idx col = map snd (filter (\<lambda>p. fst p \<in> set keep) (zip idx col))"

definition frame_loc :: "date list \<Rightarrow> frame \<Rightarrow> frame" where
  "frame_loc keep f =
     \<lparr>findex = filter (\<lambda>d. d \<in> set keep) (findex f),
      fcolumns = fcolumns f,
      fdata = map (loc_rows keep (findex f)) (fdata f)\<rparr>"

text \<open>
  \<open>Backtest.__init__\<close>: both tables are cut to the dates they share (indices are sorted and
  free of duplicates, so the shared dates keep the order of either table).
\<close>

definition Backtest_init :: "frame \<Rightarrow> frame \<Rightarrow> series option \<Rightarrow> real \<Rightarrow> Backtest" where
  "Backtest_init p w b cap =
     (let common_index = index_intersection (findex p) (findex w)
      in \<lparr>prices = frame_loc common_index p,
          weights = frame_loc common_index w,
          benchmark_prices =
            (case b of None \<Rightarrow> None
             | Some (bi, bv) \<Rightarrow>
                 Some (filter (\<lambda>d. d \<in> set common_index) bi, loc_rows common_index bi bv)),
          initial_capital = cap\<rparr>)"

text \<open>
  \<open>weights * asset_returns\<close> aligns the two tables on their column labels (asset
  identifiers, unique within a table): a weight column is multiplied cell by cell with the
  returns column of the same name, wherever that column stands; a weight column without a
  returns column of its name becomes all missing. A returns column without a weight column
  becomes all missing too and adds nothing to any row sum, so it is left out here.
\<close>

definition aligned_product ::
  "string list \<Rightarrow> cell list list \<Rightarrow> string list \<Rightarrow> cell list list \<Rightarrow> cell list list" where
  "aligned_product wcols w rcols r =
     map2 (\<lambda>name wc. case map_of (zip rcols r) name of
                         None \<Rightarrow> map (\<lambda>c. None) wc
                       | Some rc \<Rightarrow> map2 mul_cell wc rc)
          wcols w"

text \<open>
  \<open>Backtest.run\<close>, on the two tables as \<open>__init__\<close> left them (over the same dates): asset
  returns, their label-aligned product with the weights, the row sums, and the compounded
  equity curve. Prices are positive in the data model; a zero price, whose return is
  infinite in the source, is outside it.
\<close>

definition run :: "Backtest \<Rightarrow> series \<times> series" where
  "run bt =
     (let asset_returns = map (pct_change 1) (fdata (prices bt));
          prod = aligned_product (fcolumns (weights bt)) (fdata (weights bt))
                                 (fcolumns (prices bt)) asset_returns;
          idx = findex (weights bt);
          portfolio_returns = sum_axis1 (length idx) prod;
          equity_curve =
            map (\<lambda>c. mul_cell c (Some (initial_capital bt)))
                (cumprod (map (add_cell (Some 1)) portfolio_returns))
      in ((idx, portfolio_returns), (idx, equity_curve)))"

text \<open>
  Float power as \<open>**\<close> computes it: a negative base with a non-integral exponent, or a zero
  base with a negative exponent, is not a finite number.
\<close>

definition float_pow :: "real \<Rightarrow> real \<Rightarrow> cell" where
  "float_pow b e =
     (if 0 < b then Some (b powr e)
      else if b = 0 then (if 0 < e then Some 0 else if e = 0 then Some 1 else None)
      else if e = of_int \<lfloor>e\<rfloor> then Some (b powi \<lfloor>e\<rfloor>) else None)"

text \<open>
  \<open>drawdown.min()\<close>: a drawdown cell whose peak is zero is NaN when the cumulative return is
  zero too (skipped by \<open>min\<close>) and minus infinity otherwise (then the minimum is not finite).
\<close>

definition min_skipna :: "cell list \<Rightarrow> cell" where
  "min_skipna xs = (let vs = valid xs in if vs = [] then None else Some (Min (set vs)))"

definition max_drawdown_of :: "cell list \<Rightarrow> cell" where
  "max_drawdown_of returns =
     (let cum_returns = cumprod (map (add_cell (Some 1)) returns);
          peak = cummax cum_returns;
          drawdown = map2 (\<lambda>c p. div_cell (sub_cell c p) p) cum_returns peak
      in if list_ex (\<lambda>(c, p). p = Some 0 \<and> c \<noteq> None \<and> c \<noteq> Some 0) (zip cum_returns peak)
         then None else min_skipna drawdown)"

definition calculate_metrics :: "cell list \<Rightarrow> (string \<times> cell) list" where
  "calculate_metrics returns =
     (let days = length returns
      in if days < 1 then []
         else (let total_return = prod_list (valid (map (add_cell (Some 1)) returns)) - 1;
                   annualized_return =
                     sub_cell (float_pow (1 + total_return) (252 / real days)) (Some 1);
                   annualized_vol = mul_cell (std_skipna returns) (Some (sqrt 252));
                   rf = 6 / 100;
                   daily_rf = (1 + rf) powr (1 / 252) - 1;
                   sharpe = mul_cell (div_cell (sub_cell (mean_skipna returns) (Some daily_rf))
                                               (std_skipna returns)) (Some (sqrt 252));
                   max_drawdown = max_drawdown_of returns
               in [(''Total Return'', Some total_return),
                   (''Annualized Return'', annualized_return),
                   (''Volatility'', annualized_vol),
                   (''Sharpe Ratio'', sharpe),
                   (''Max Drawdown'', max_drawdown)]))"

section \<open>The sector strategy (strategy.py)\<close>

datatype error = KeyError string | ValueError | ZeroDivisionError

text \<open>
  \<open>self.prices\<close> is named \<open>sector_prices\<close> here (the backtest has a field \<open>prices\<close> too).
  \<open>top_k\<close> is a Python integer; the four window lengths are attributes set by the
  constructor.
\<close>

record SectorStrategy =
  sector_prices :: frame
  macro_data :: "frame option"
  top_k :: int
  momentum_period :: nat
  volatility_period :: nat
  rsi_period :: nat
  value_period :: nat

definition SectorStrategy_init :: "frame \<Rightarrow> frame option \<Rightarrow> int \<Rightarrow> SectorStrategy" where
  "SectorStrategy_init p macro k =
     \<lparr>sector_prices = p\<lparr>fdata := map ffill (fdata p)\<rparr>,
      macro_data = macro,
      top_k = k,
      momentum_period = 252,
      volatility_period = 126,
      rsi_period = 14,
      value_period = 252 * 5\<rparr>"

definition eps :: real where
  "eps = 1 / 1000000"

text \<open>
  \<open>rolling(window=w)\<close>: \<open>min_periods\<close> defaults to the window, so the aggregate is taken only
  where the \<open>w\<close> cells ending at the date exist and none is missing.
\<close>

definition rolling :: "nat \<Rightarrow> (real list \<Rightarrow> cell) \<Rightarrow> cell list \<Rightarrow> cell list" where
  "rolling w agg xs =
     map (\<lambda>i. if w = 0 \<or> Suc i < w then None
               else (let win = take w (drop (Suc i - w) xs)
                     in if list_all (\<lambda>c. c \<noteq> None) win then agg (map the win) else None))
         [0..<length xs]"

definition mean_agg :: "real list \<Rightarrow> cell" where
  "mean_agg vs = Some (sum_list vs / real (length vs))"

definition std_agg :: "real list \<Rightarrow> cell" where
  "std_agg vs =
     (let n = length vs
      in if n < 2 then None
         else (let m = sum_list vs / real n
               in Some (sqrt (sum_list (map (\<lambda>v. (v - m)\<^sup>2) vs) / real (n - 1)))))"

definition diff :: "cell list \<Rightarrow> cell list" where
  "diff xs = map2 sub_cell xs (shift 1 xs)"

text \<open>\<open>x.where(cond, other)\<close> keeps a cell where \<open>cond\<close> holds (it never holds on NaN).\<close>

definition where_cell :: "(real \<Rightarrow> bool) \<Rightarrow> real \<Rightarrow> cell \<Rightarrow> cell" where
  "where_cell cond other c =
     (case c of None \<Rightarrow> Some other | Some v \<Rightarrow> if cond v then Some v else Some other)"

definition neg_cell :: "cell \<Rightarrow> cell" where
  "neg_cell c = map_option uminus c"

definition calculate_rsi :: "cell list \<Rightarrow> nat \<Rightarrow> cell list" where
  "calculate_rsi series period =
     (let delta = diff series;
          gain = rolling period mean_agg (map (where_cell (\<lambda>v. v > 0) 0) delta);
          loss = rolling period mean_agg (map (\<lambda>c. neg_cell (where_cell (\<lambda>v. v < 0) 0 c)) delta);
          rs = map2 div_cell gain (map (\<lambda>c. add_cell c (Some eps)) loss)
      in map (\<lambda>r. sub_cell (Some 100) (div_cell (Some 100) (add_cell (Some 1) r))) rs)"

text \<open>\<open>calculate_factors\<close> returns momentum, volatility, rsi and value proxy, column by column.\<close>

definition calculate_factors ::
  "SectorStrategy \<Rightarrow> cell list list \<times> cell list list \<times> cell list list \<times> cell list list" where
  "calculate_factors s =
     (let p = fdata (sector_prices s);
          momentum = map (pct_change (momentum_period s)) p;
          daily_rets = map (pct_change 1) p;
          volatility = map (rolling (volatility_period s) std_agg) daily_rets;
          rsi = map (\<lambda>x. calculate_rsi x (rsi_period s)) p;
          sma5y = map (rolling (value_period s) mean_agg) p;
          value_proxy =
            map2 (map2 (\<lambda>x m. div_cell (sub_cell x m) (add_cell m (Some eps)))) p sma5y
      in (momentum, volatility, rsi, value_proxy))"

text \<open>
  \<open>reindex\<close> looks every date of the new index up in the old one (missing where absent) and
  raises on an old index with duplicate dates.
\<close>

definition reindex :: "date list \<Rightarrow> cell list \<Rightarrow> date list \<Rightarrow> cell list" where
  "reindex old col new = map (\<lambda>d. case map_of (zip old col) d of None \<Rightarrow> None | Some c \<Rightarrow> c) new"

definition get_column :: "frame \<Rightarrow> string \<Rightarrow> error + cell list" where
  "get_column f name =
     (case map_of (zip (fcolumns f) (fdata f)) name of
        None \<Rightarrow> Inl (KeyError name) | Some c \<Rightarrow> Inr c)"

text \<open>\<open>'IT' in c\<close>: the substring test of Python strings.\<close>

definition contains :: "string \<Rightarrow> string \<Rightarrow> bool" where
  "contains sub s = list_ex (\<lambda>k. take (length sub) (drop k s) = sub) [0..<Suc (length s)]"

definition gt_cell :: "cell \<Rightarrow> cell \<Rightarrow> bool" where
  "gt_cell a b = (case a of None \<Rightarrow> False | Some x \<Rightarrow> (case b of None \<Rightarrow> False | Some y \<Rightarrow> x > y))"

text \<open>\<open>regime.loc[flag, cols] += delta\<close>, for \<open>cols\<close> the columns whose name contains \<open>tag\<close>.\<close>

definition boost :: "string list \<Rightarrow> string \<Rightarrow> bool list \<Rightarrow> real \<Rightarrow> cell list list \<Rightarrow> cell list list" where
  "boost columns tag flag delta regime =
     map2 (\<lambda>name col. if contains tag name
                        then map2 (\<lambda>f c. if f then add_cell c (Some delta) else c) flag col
                        else col)
          columns regime"

definition get_macro_regime :: "SectorStrategy \<Rightarrow> error + cell list list option" where
  "get_macro_regime s =
     (case macro_data s of
        None \<Rightarrow> Inr None
      | Some md \<Rightarrow>
          if \<not> distinct (findex md) then Inl ValueError
          else (let idx = findex (sector_prices s);
                    columns = fcolumns (sector_prices s);
                    macro = md\<lparr>findex := idx,
                               fdata := map (\<lambda>c. ffill (reindex (findex md) c idx)) (fdata md)\<rparr>
                in case get_column macro ''INR=X'' of
                     Inl e \<Rightarrow> Inl e
                   | Inr usd \<Rightarrow>
                       (let usd_ma = rolling 50 mean_agg usd;
                            rupee_weak = map2 gt_cell usd usd_ma
                        in case get_column macro ''CL=F'' of
                             Inl e \<Rightarrow> Inl e
                           | Inr crude \<Rightarrow>
                               (let crude_ma = rolling 50 mean_agg crude;
                                    oil_high = map2 gt_cell crude crude_ma;
                                    regime = map (\<lambda>c. replicate (length idx) (Some 0)) columns
                                in Inr (Some (boost columns ''AUTO'' oil_high (- (1 / 2))
                                              (boost columns ''PHARMA'' rupee_weak (1 / 2)
                                              (boost columns ''IT'' rupee_weak (1 / 2) regime))))))))"

text \<open>
  \<open>zscore\<close> inside \<open>compute_scores\<close>: per date, the row mean is subtracted and the result
  divided by the row's sample standard deviation plus \<open>1e-6\<close>.
\<close>

definition zscore :: "nat \<Rightarrow> cell list list \<Rightarrow> cell list list" where
  "zscore n df =
     (let mean = map (\<lambda>i. mean_skipna (row_of df i)) [0..<n];
          sd = map (\<lambda>i. add_cell (std_skipna (row_of df i)) (Some eps)) [0..<n]
      in map (\<lambda>c. map2 div_cell (map2 sub_cell c mean) sd) df)"

definition scale :: "real \<Rightarrow> cell list list \<Rightarrow> cell list list" where
  "scale a df = map (map (mul_cell (Some a))) df"

definition neg_frame :: "cell list list \<Rightarrow> cell list list" where
  "neg_frame df = map (map neg_cell) df"

definition add_frame :: "cell list list \<Rightarrow> cell list list \<Rightarrow> cell list list" where
  "add_frame a b = map2 (map2 add_cell) a b"

text \<open>The part of \<open>compute_scores\<close> after the factors and the overlay have been computed.\<close>

definition composite ::
  "nat \<Rightarrow> cell list list \<Rightarrow> cell list list \<Rightarrow> cell list list \<Rightarrow> cell list list \<Rightarrow>
   cell list list option \<Rightarrow> cell list list" where
  "composite n mom vol rsi val macro_boost =
     (let z_mom = zscore n mom;
          z_vol = zscore n vol;
          z_rsi = zscore n rsi;
          z_val = zscore n val;
          score = add_frame (add_frame (add_frame (scale (3 / 10) z_mom)
                                                  (scale (3 / 10) (neg_frame z_val)))
                                       (scale (2 / 10) z_rsi))
                            (scale (2 / 10) (neg_frame z_vol))
      in case macro_boost of None \<Rightarrow> score | Some b \<Rightarrow> add_frame score b)"

definition compute_scores :: "SectorStrategy \<Rightarrow> error + cell list list" where
  "compute_scores s =
     (case calculate_factors s of
        (mom, vol, rsi, val) \<Rightarrow>
          (case get_macro_regime s of
             Inl e \<Rightarrow> Inl e
           | Inr macro_boost \<Rightarrow>
               Inr (composite (length (findex (sector_prices s))) mom vol rsi val macro_boost)))"

text \<open>
  Calendar months are numbered \<open>12 * year + (month - 1)\<close>; \<open>month_end k\<close> is the last calendar
  day of month \<open>k\<close>, the label \<open>resample('ME')\<close> gives to the month's bin.
\<close>

definition month_key :: "date \<Rightarrow> nat" where
  "month_key d = fst d * 12 + (fst (snd d) - 1)"

definition leap_year :: "nat \<Rightarrow> bool" where
  "leap_year y = (y mod 4 = 0 \<and> (y mod 100 \<noteq> 0 \<or> y mod 400 = 0))"

definition days_in_month :: "nat \<Rightarrow> nat \<Rightarrow> nat" where
  "days_in_month y m =
     (if m = 2 then (if leap_year y then 29 else 28)
      else if m = 4 \<or> m = 6 \<or> m = 9 \<or> m = 11 then 30 else 31)"

definition month_end :: "nat \<Rightarrow> date" where
  "month_end k = (k div 12, k mod 12 + 1, days_in_month (k div 12) (k mod 12 + 1))"

definition valid_date :: "date \<Rightarrow> bool" where
  "valid_date d =
     (1 \<le> fst (snd d) \<and> fst (snd d) \<le> 12 \<and>
      1 \<le> snd (snd d) \<and> snd (snd d) \<le> days_in_month (fst d) (fst (snd d)))"

definition date_lt :: "date \<Rightarrow> date \<Rightarrow> bool" where
  "date_lt a b =
     (fst a < fst b \<or> (fst a = fst b \<and>
        (fst (snd a) < fst (snd b) \<or> (fst (snd a) = fst (snd b) \<and> snd (snd a) < snd (snd b)))))"

text \<open>A trading calendar: valid dates, strictly increasing.\<close>

definition calendar :: "date list \<Rightarrow> bool" where
  "calendar idx = (list_all valid_date idx \<and> sorted_wrt date_lt idx)"

definition last_valid :: "cell list \<Rightarrow> cell" where
  "last_valid xs = (case filter (\<lambda>c. c \<noteq> None) xs of [] \<Rightarrow> None | y # ys \<Rightarrow> last (y # ys))"

definition in_month :: "nat \<Rightarrow> date list \<Rightarrow> cell list \<Rightarrow> cell list" where
  "in_month k idx col = map snd (filter (\<lambda>p. month_key (fst p) = k) (zip idx col))"

text \<open>
  \<open>resample('ME').last()\<close>: one row per calendar month from the first date's month to the
  last date's, labelled with the month's last calendar day, holding per column the last
  non-missing value of the month (missing if there is none).
\<close>

definition resample_ME_last :: "date list \<Rightarrow> cell list list \<Rightarrow> (date \<times> cell list) list" where
  "resample_ME_last idx df =
     (if idx = [] then []
      else map (\<lambda>k. (month_end k, map (\<lambda>c. last_valid (in_month k idx c)) df))
               [month_key (hd idx)..<Suc (month_key (last idx))])"

text \<open>
  \<open>nlargest(k)\<close> on the non-missing scores, given as (column position, score): the \<open>k\<close>
  largest, equal scores in column order.
\<close>

definition nlargest :: "nat \<Rightarrow> (nat \<times> real) list \<Rightarrow> nat list" where
  "nlargest k vs = map fst (take k (sort_key (\<lambda>p. - snd p) vs))"

text \<open>
  One pass of the loop of \<open>get_signal_df\<close>: the new row of the monthly \<open>weights\<close> for one month, or the
  error raised (\<open>1.0 / self.top_k\<close> with \<open>top_k = 0\<close>). A skipped month keeps its row of
  zeros.
\<close>

definition rebalance_row :: "int \<Rightarrow> nat \<Rightarrow> cell list \<Rightarrow> error + real list" where
  "rebalance_row k m row =
     (let valid_scores = map (\<lambda>p. (fst p, the (snd p)))
                             (filter (\<lambda>p. snd p \<noteq> None) (zip [0..<length row] row))
      in if int (length valid_scores) < k then Inr (replicate m 0)
         else (let top_sectors = (if k \<le> 0 then [] else nlargest (nat k) valid_scores)
               in if k = 0 then Inl ZeroDivisionError
                  else (let w = 1 / real_of_int k
                        in Inr (map (\<lambda>j. if j \<in> set top_sectors then w else 0) [0..<m]))))"

fun weights_loop :: "int \<Rightarrow> nat \<Rightarrow> (date \<times> cell list) list \<Rightarrow> error + (date \<times> real list) list" where
  "weights_loop k m [] = Inr []"
| "weights_loop k m ((d, row) # rest) =
     (case rebalance_row k m row of
        Inl e \<Rightarrow> Inl e
      | Inr w \<Rightarrow> (case weights_loop k m rest of Inl e \<Rightarrow> Inl e | Inr ws \<Rightarrow> Inr ((d, w) # ws)))"

definition fillna :: "real \<Rightarrow> cell list \<Rightarrow> cell list" where
  "fillna v xs = map (\<lambda>c. case c of None \<Rightarrow> Some v | Some x \<Rightarrow> Some x) xs"

text \<open>Column \<open>j\<close> of \<open>weights.reindex(self.prices.index)\<close> (month labels are distinct).\<close>

definition reindex_weights :: "(date \<times> real list) list \<Rightarrow> nat \<Rightarrow> date list \<Rightarrow> cell list" where
  "reindex_weights monthly j idx =
     map (\<lambda>d. case map_of monthly d of None \<Rightarrow> None | Some ws \<Rightarrow> Some (ws ! j)) idx"

text \<open>
  The Allocator: the body of \<open>get_signal_df\<close> from the composite score table on, for the
  calendar and the asset columns of the price panel (\<open>monthly\<close> is the table \<open>weights\<close>).
\<close>

definition allocate :: "int \<Rightarrow> date list \<Rightarrow> string list \<Rightarrow> cell list list \<Rightarrow> error + frame" where
  "allocate k idx columns scores =
     (let monthly_scores = resample_ME_last idx scores
      in case weights_loop k (length columns) monthly_scores of
           Inl e \<Rightarrow> Inl e
         | Inr monthly \<Rightarrow>
             Inr \<lparr>findex = idx, fcolumns = columns,
                  fdata = map (\<lambda>j. fillna 0 (shift 1 (ffill (reindex_weights monthly j idx))))
                              [0..<length columns]\<rparr>)"

definition get_signal_df :: "SectorStrategy \<Rightarrow> error + frame" where
  "get_signal_df s =
     (case compute_scores s of
        Inl e \<Rightarrow> Inl e
      | Inr scores \<Rightarrow>
          allocate (top_k s) (findex (sector_prices s)) (fcolumns (sector_prices s)) scores)"

text \<open>
  A month-end date is a date that is the last calendar day of its month; the decision in
  force after a list of trading days is the one labelled with the last month-end date among
  them.
\<close>

definition is_month_end :: "date \<Rightarrow> bool" where
  "is_month_end d = (month_end (month_key d) = d)"

definition governing :: "date list \<Rightarrow> date option" where
  "governing ds = (case filter is_month_end ds of [] \<Rightarrow> None | y # ys \<Rightarrow> Some (last (y # ys)))"

text \<open>
  The trailing averages the trend oscillator is described with: over the \<open>p\<close> days ending at
  date \<open>i\<close>, the average of the positive price changes and the average magnitude of the
  negative ones (a change of the other sign counts as 0).
\<close>

definition avg_gain :: "cell list \<Rightarrow> nat \<Rightarrow> nat \<Rightarrow> real" where
  "avg_gain xs p i =
     sum_list (map (\<lambda>t. max (the (xs ! t) - the (xs ! (t - 1))) 0) [Suc i - p..<Suc i]) / real p"

definition avg_loss :: "cell list \<Rightarrow> nat \<Rightarrow> nat \<Rightarrow> real" where
  "avg_loss xs p i =
     sum_list (map (\<lambda>t. max (the (xs ! (t - 1)) - the (xs ! t)) 0) [Suc i - p..<Suc i]) / real p"

text \<open>Fifteen daily prices rising by 1 a day.\<close>

definition ex_rising :: "cell list" where
  "ex_rising = [Some 1, Some 2, Some 3, Some 4, Some 5, Some 6, Some 7, Some 8, Some 9, Some 10,
                Some 11, Some 12, Some 13, Some 14, Some 15]"

text \<open>
  The composite score as the Scorer is described, cell by cell: the z-score of a factor
  value is the value minus the date's across-asset mean, divided by the date's across-asset
  standard deviation plus \<open>1e-6\<close>; the four z-scores are combined with the weights
  0.3, 0.3, 0.2, 0.2 (value and volatility sign-flipped), and the overlay, when present, is
  added as it is.
\<close>

definition zscore_cell :: "cell list list \<Rightarrow> nat \<Rightarrow> nat \<Rightarrow> cell" where
  "zscore_cell df i j =
     (case df ! j ! i of
        None \<Rightarrow> None
      | Some x \<Rightarrow>
          (case mean_skipna (row_of df i) of
             None \<Rightarrow> None
           | Some mu \<Rightarrow>
               (case std_skipna (row_of df i) of
                  None \<Rightarrow> None
                | Some sd \<Rightarrow> Some ((x - mu) / (sd + eps)))))"

definition weighted_sum_cell :: "cell \<Rightarrow> cell \<Rightarrow> cell \<Rightarrow> cell \<Rightarrow> cell" where
  "weighted_sum_cell z_momentum z_value z_rsi z_volatility =
     (case z_momentum of None \<Rightarrow> None | Some zm \<Rightarrow>
     (case z_value of None \<Rightarrow> None | Some zv \<Rightarrow>
     (case z_rsi of None \<Rightarrow> None | Some zr \<Rightarrow>
     (case z_volatility of None \<Rightarrow> None | Some zs \<Rightarrow>
        Some (3 / 10 * zm + 3 / 10 * (- zv) + 2 / 10 * zr + 2 / 10 * (- zs))))))"

definition composite_cell ::
  "cell list list \<Rightarrow> cell list list \<Rightarrow> cell list list \<Rightarrow> cell list list \<Rightarrow>
   cell list list option \<Rightarrow> nat \<Rightarrow> nat \<Rightarrow> cell" where
  "composite_cell mom vol rsi val overlay i j =
     (let base = weighted_sum_cell (zscore_cell mom i j) (zscore_cell val i j)
                                   (zscore_cell rsi i j) (zscore_cell vol i j)
      in case overlay of None \<Rightarrow> base | Some b \<Rightarrow> add_cell base (b ! j ! i))"

text \<open>A table has shape \<open>m\<close> by \<open>n\<close>: \<open>m\<close> asset columns of \<open>n\<close> dates each.\<close>

definition shaped :: "nat \<Rightarrow> nat \<Rightarrow> cell list list \<Rightarrow> bool" where
  "shaped m n df = (length df = m \<and> list_all (\<lambda>c. length c = n) df)"

text \<open>One date, three assets with factor values 0, 1 and 2.\<close>

definition ex_factor :: "cell list list" where
  "ex_factor = [[Some 0], [Some 1], [Some 2]]"

text \<open>
  Two runs are compared on what they share: \<open>truncate_frame k\<close> keeps the first \<open>k\<close> dates
  of a table, \<open>frame_upto d\<close> the rows dated \<open>d\<close> or earlier, \<open>held_upto n\<close> the daily
  weights of the first \<open>n\<close> dates.
\<close>

definition truncate_frame :: "nat \<Rightarrow> frame \<Rightarrow> frame" where
  "truncate_frame k f = f\<lparr>findex := take k (findex f), fdata := map (take k) (fdata f)\<rparr>"

definition frame_upto :: "date \<Rightarrow> frame \<Rightarrow> frame" where
  "frame_upto d f =
     \<lparr>findex = filter (\<lambda>x. \<not> date_lt d x) (findex f),
      fcolumns = fcolumns f,
      fdata = map (\<lambda>c. map snd (filter (\<lambda>p. \<not> date_lt d (fst p)) (zip (findex f) c)))
                  (fdata f)\<rparr>"

definition held_upto :: "nat \<Rightarrow> frame \<Rightarrow> cell list list" where
  "held_upto n W = map (take n) (fdata W)"

text \<open>A macro panel is well formed: full columns, no duplicate date.\<close>

definition wf_macro :: "frame option \<Rightarrow> bool" where
  "wf_macro m = (case m of None \<Rightarrow> True | Some md \<Rightarrow> wf_frame md \<and> distinct (findex md))"

text \<open>
  Two runs that share three trading days, 29 to 31 January 2024 (a month-end that is a
  trading day), and part ways afterwards. Three assets fall by a constant 75, 50 and 25
  percent a day; the macro panel is flat. The second run has another fourth day, other
  prices on it and another macro row after January. The strategy object is the
  constructor's, with the window attributes set to 1, 2, 1 and 1 days, so that three days
  of history give every factor a value; \<open>K = 1\<close>.
\<close>

definition ex_panel :: frame where
  "ex_panel = \<lparr>findex = [(2024,1,29), (2024,1,30), (2024,1,31), (2024,2,1)],
                fcolumns = [''A'', ''B'', ''C''],
                fdata = [[Some 64, Some 16, Some 4, Some 1],
                         [Some 64, Some 32, Some 16, Some 8],
                         [Some 64, Some 48, Some 36, Some 27]]\<rparr>"

definition ex_panel' :: frame where
  "ex_panel' = \<lparr>findex = [(2024,1,29), (2024,1,30), (2024,1,31), (2024,2,2)],
                 fcolumns = [''A'', ''B'', ''C''],
                 fdata = [[Some 64, Some 16, Some 4, Some 100],
                          [Some 64, Some 32, Some 16, Some 1],
                          [Some 64, Some 48, Some 36, Some 5]]\<rparr>"

definition ex_macro :: frame where
  "ex_macro = \<lparr>findex = [(2024,1,29), (2024,1,30), (2024,1,31), (2024,2,1)],
                fcolumns = [''INR=X'', ''CL=F''],
                fdata = [[Some 83, Some 83, Some 83, Some 83],
                         [Some 70, Some 70, Some 70, Some 70]]\<rparr>"

definition ex_macro' :: frame where
  "ex_macro' = \<lparr>findex = [(2024,1,29), (2024,1,30), (2024,1,31), (2024,2,2)],
                 fcolumns = [''INR=X'', ''CL=F''],
                 fdata = [[Some 83, Some 83, Some 83, Some 90],
                          [Some 70, Some 70, Some 70, Some 40]]\<rparr>"

definition ex_strategy :: SectorStrategy where
  "ex_strategy = (SectorStrategy_init ex_panel (Some ex_macro) 1)
     \<lparr>momentum_period := 1, volatility_period := 2, rsi_period := 1, value_period := 1\<rparr>"

definition ex_strategy' :: SectorStrategy where
  "ex_strategy' = (SectorStrategy_init ex_panel' (Some ex_macro') 1)
     \<lparr>momentum_period := 1, volatility_period := 2, rsi_period := 1, value_period := 1\<rparr>"

text \<open>
  A backtest over two assets whose weight table lists them in the other order: asset A
  doubles, asset B halves, and B is held on the second day.
\<close>

definition bt_swapped :: Backtest where
  "bt_swapped = Backtest_init
     \<lparr>findex = [(2024,1,1),(2024,1,2)], fcolumns = [''A'', ''B''],
      fdata = [[Some 100, Some 200], [Some 100, Some 50]]\<rparr>
     \<lparr>findex = [(2024,1,1),(2024,1,2)], fcolumns = [''B'', ''A''],
      fdata = [[Some 0, Some 1], [Some 0, Some 0]]\<rparr>
     None 100000"

text \<open>A two-day, one-asset backtest: the price doubles, the asset is held on the second day.\<close>

definition bt_ex :: Backtest where
  "bt_ex = Backtest_init
     \<lparr>findex = [(2024,1,1),(2024,1,2)], fcolumns = [''A''], fdata = [[Some 100, Some 200]]\<rparr>
     \<lparr>findex = [(2024,1,1),(2024,1,2)], fcolumns = [''A''], fdata = [[Some 0, Some 1]]\<rparr>
     None 100000"

text \<open>
  A calendar on which February is skipped (no score in February, \<open>K = 1\<close>), and one on
  which the last calendar day of March, a Sunday, is not a trading day.
\<close>

definition ex1_idx :: "date list" where
  "ex1_idx = [(2024,1,31), (2024,2,1), (2024,2,29), (2024,3,1), (2024,3,4)]"

definition ex1_scores :: "cell list list" where
  "ex1_scores = [[Some 1, None, None, Some 1, Some 1], [Some 0, None, None, Some 0, Some 2]]"

definition ex2_idx :: "date list" where
  "ex2_idx = [(2024,3,27), (2024,3,28), (2024,4,1), (2024,4,2)]"

definition ex2_scores :: "cell list list" where
  "ex2_scores = [[Some 1, Some 1, Some 1, Some 1], [Some 0, Some 0, Some 0, Some 0]]"

definition ex1_weights :: frame where
  "ex1_weights = \<lparr>findex = ex1_idx, fcolumns = [''A'', ''B''],
                   fdata = [[Some 0, Some 1, Some 1, Some 0, Some 0],
                            [Some 0, Some 0, Some 0, Some 0, Some 0]]\<rparr>"

definition ex2_weights :: frame where
  "ex2_weights = \<lparr>findex = ex2_idx, fcolumns = [''A'', ''B''],
                   fdata = [[Some 0, Some 0, Some 0, Some 0], [Some 0, Some 0, Some 0, Some 0]]\<rparr>"

section \<open>Properties of the backtest engine\<close>

lemma bt_ex_fields:
  "prices bt_ex = \<lparr>findex = [(2024,1,1),(2024,1,2)], fcolumns = [''A''], fdata = [[Some 100, Some 200]]\<rparr>"
  "weights bt_ex = \<lparr>findex = [(2024,1,1),(2024,1,2)], fcolumns = [''A''], fdata = [[Some 0, Some 1]]\<rparr>"
  "initial_capital bt_ex = 100000"
  by (simp_all add: bt_ex_def Backtest_init_def frame_loc_def index_intersection_def loc_rows_def Let_def)

lemma bt_ex_run:
  "run bt_ex = (([(2024, 1, 1), (2024, 1, 2)], [Some 0, Some 1]),
                [(2024, 1, 1), (2024, 1, 2)], [Some 100000, Some 200000])"
  by (simp add: bt_ex_fields run_def aligned_product_def pct_change_def ffill_def shift_def
      sum_axis1_def row_of_def cell_at_def valid_def mul_cell_def div_cell_def sub_cell_def
      add_cell_def cumprod_def Let_def)

text \<open>The product follows the column labels: the return of the day is that of asset B.\<close>

lemma bt_swapped_run:
  "snd (fst (run bt_swapped)) = [Some 0, Some (- (1 / 2))]"
  by (simp add: bt_swapped_def Backtest_init_def frame_loc_def index_intersection_def
      loc_rows_def run_def aligned_product_def pct_change_def ffill_def shift_def sum_axis1_def
      row_of_def cell_at_def valid_def mul_cell_def div_cell_def sub_cell_def Let_def)

lemma length_sum_axis1: "length (sum_axis1 n cols) = n"
  by (simp add: sum_axis1_def)

lemma length_ffill_from: "length (ffill_from p xs) = length xs"
  by (induction xs arbitrary: p) (auto split: option.splits)

lemma length_pct_change: "length (pct_change k xs) = length xs"
  by (simp add: pct_change_def Let_def shift_def ffill_def length_ffill_from)

lemma ffill_from_nth_Some:
  "i < length xs \<Longrightarrow> xs ! i = Some v \<Longrightarrow> ffill_from p xs ! i = Some v"
proof (induction xs arbitrary: p i)
  case Nil then show ?case by simp
next
  case (Cons x xs)
  then show ?case by (cases i) (auto split: option.splits)
qed

lemma pct_change_first: "0 < length xs \<Longrightarrow> pct_change (Suc 0) xs ! 0 = None"
  by (cases xs) (auto simp: pct_change_def Let_def shift_def ffill_def div_cell_def sub_cell_def split: option.splits)

lemma pct_change_nth:
  assumes "Suc t < length xs" "xs ! Suc t = Some p" "xs ! t = Some q" "q \<noteq> 0"
  shows "pct_change (Suc 0) xs ! Suc t = Some (p / q - 1)"
proof -
  let ?d = "ffill xs"
  have l: "length ?d = length xs" by (simp add: ffill_def length_ffill_from)
  have a: "?d ! Suc t = Some p" using assms by (simp add: ffill_def ffill_from_nth_Some)
  have b: "?d ! t = Some q" using assms by (simp add: ffill_def ffill_from_nth_Some)
  have s: "shift (Suc 0) ?d ! Suc t = ?d ! t" using assms l by (simp add: shift_def)
  have ls: "length (shift (Suc 0) ?d) = length xs" using l by (simp add: shift_def)
  show ?thesis using assms a b s l ls
    by (simp add: pct_change_def Let_def div_cell_def sub_cell_def)
qed

lemma cumprod_from_Some:
  "i < length vs \<Longrightarrow> cumprod_from acc (map Some vs) ! i = Some (acc * prod_list (take (Suc i) vs))"
proof (induction vs arbitrary: acc i)
  case Nil then show ?case by simp
next
  case (Cons v vs)
  then show ?case by (cases i) (auto simp: mult.assoc)
qed

lemma prod_list_take_Suc: "i < length vs \<Longrightarrow> prod_list (take (Suc i) vs) = (\<Prod>t\<le>i. vs ! t)"
proof (induction i)
  case 0 then show ?case by (cases vs) auto
next
  case (Suc i)
  then show ?case by (simp add: take_Suc_conv_app_nth[of "Suc i"] atMost_Suc mult.commute)
qed

lemma valid_map_Some: "valid (map (\<lambda>j. Some (g j)) xs) = map g xs"
  by (simp add: valid_def o_def)

lemma valid_all_None: "list_all (\<lambda>x. x = None) xs \<Longrightarrow> valid xs = []"
  by (induction xs) (auto simp: valid_def)

lemma sum_list_upt_lessThan: "sum_list (map g [0..<m]) = (\<Sum>j<m. (g j :: real))"
  by (simp add: interv_sum_list_conv_sum_set_nat atLeast0LessThan)

lemma run_index: "fst (fst (run bt)) = findex (weights bt)"
  by (simp add: run_def Let_def)

lemma run_returns_length: "length (snd (fst (run bt))) = length (findex (weights bt))"
  by (simp add: run_def Let_def length_sum_axis1)

lemma run_returns_nth:
  "t < length (findex (weights bt)) \<Longrightarrow>
   snd (fst (run bt)) ! t =
     Some (sum_list (valid (row_of (aligned_product (fcolumns (weights bt)) (fdata (weights bt))
                                     (fcolumns (prices bt))
                                     (map (pct_change 1) (fdata (prices bt)))) t)))"
  by (simp add: run_def Let_def sum_axis1_def)

lemma aligned_product_same:
  assumes "distinct cols" and "length r = length cols" and "length w = length cols"
  shows "aligned_product cols w cols r = map2 (map2 mul_cell) w r"
proof (rule nth_equalityI)
  show "length (aligned_product cols w cols r) = length (map2 (map2 mul_cell) w r)"
    using assms by (simp add: aligned_product_def)
next
  fix j assume "j < length (aligned_product cols w cols r)"
  then have j: "j < length cols" using assms by (simp add: aligned_product_def)
  have "map_of (zip cols r) (cols ! j) = Some (r ! j)"
    using assms j by (intro map_of_zip_nth) simp_all
  then show "aligned_product cols w cols r ! j = map2 (map2 mul_cell) w r ! j"
    using assms j by (simp add: aligned_product_def)
qed

lemma run_product_same:
  assumes "wf_frame (prices bt)" and "wf_frame (weights bt)"
    and "fcolumns (weights bt) = fcolumns (prices bt)" and "distinct (fcolumns (prices bt))"
  shows "aligned_product (fcolumns (weights bt)) (fdata (weights bt)) (fcolumns (prices bt))
           (map (pct_change (Suc 0)) (fdata (prices bt))) =
         map2 (map2 mul_cell) (fdata (weights bt)) (map (pct_change (Suc 0)) (fdata (prices bt)))"
  unfolding assms(3)
  by (rule aligned_product_same) (use assms in \<open>simp_all add: wf_frame_def\<close>)

lemma run_first_zero:
  assumes "wf_frame (prices bt)" "0 < length (findex (prices bt))"
    "findex (weights bt) = findex (prices bt)"
    and cols: "wf_frame (weights bt)" "fcolumns (weights bt) = fcolumns (prices bt)"
      "distinct (fcolumns (prices bt))"
  shows "snd (fst (run bt)) ! 0 = Some 0"
proof -
  note same = run_product_same[OF assms(1) cols]
  let ?R = "map (pct_change 1) (fdata (prices bt))"
  let ?P = "map2 (map2 mul_cell) (fdata (weights bt)) ?R"
  have r: "\<forall>c \<in> set ?R. cell_at c 0 = None"
    using assms(1,2)
    by (auto simp: wf_frame_def list_all_iff cell_at_def pct_change_first)
  have "\<forall>c \<in> set ?P. cell_at c 0 = None"
  proof
    fix c assume "c \<in> set ?P"
    then obtain w r where wr: "(w, r) \<in> set (zip (fdata (weights bt)) ?R)" "c = map2 mul_cell w r"
      by auto
    then have "r \<in> set ?R" by (meson set_zip_rightD)
    then have "cell_at r 0 = None" using r by blast
    then show "cell_at c 0 = None" using wr(2)
      by (auto simp: cell_at_def mul_cell_def split: option.splits)
  qed
  then have "list_all (\<lambda>x. x = None) (row_of ?P 0)"
    by (simp add: row_of_def list_all_iff)
  then have "valid (row_of ?P 0) = []" by (rule valid_all_None)
  then show ?thesis using assms(2,3) by (simp add: run_returns_nth same)
qed

lemma run_later:
  assumes wfp: "wf_frame (prices bt)" and wfw: "wf_frame (weights bt)"
    and idx: "findex (weights bt) = findex (prices bt)"
    and cols: "fcolumns (weights bt) = fcolumns (prices bt)" "distinct (fcolumns (prices bt))"
    and t: "Suc t < length (findex (prices bt))"
    and ok: "\<forall>j < length (fdata (prices bt)).
               fdata (prices bt) ! j ! Suc t \<noteq> None \<and> fdata (prices bt) ! j ! t \<noteq> None \<and>
               fdata (prices bt) ! j ! t \<noteq> Some 0 \<and> fdata (weights bt) ! j ! Suc t \<noteq> None"
  shows "snd (fst (run bt)) ! Suc t =
     Some (\<Sum>j < length (fdata (prices bt)).
            the (fdata (weights bt) ! j ! Suc t) *
            (the (fdata (prices bt) ! j ! Suc t) / the (fdata (prices bt) ! j ! t) - 1))"
proof -
  let ?W = "fdata (weights bt)" and ?Pr = "fdata (prices bt)"
  let ?m = "length ?Pr" and ?n = "length (findex (prices bt))"
  let ?R = "map (pct_change 1) ?Pr"
  let ?P = "map2 (map2 mul_cell) ?W ?R"
  let ?g = "\<lambda>j. the (?W ! j ! Suc t) * (the (?Pr ! j ! Suc t) / the (?Pr ! j ! t) - 1)"
  note same = run_product_same[OF wfp wfw cols]
  have m: "length (fdata (weights bt)) = length (fdata (prices bt))"
    using wfp wfw cols(1) by (simp add: wf_frame_def)
  have lenP: "length ?P = ?m" using m by simp
  have cell: "cell_at (?P ! j) (Suc t) = Some (?g j)" if j: "j < ?m" for j
  proof -
    have lp: "length (?Pr ! j) = ?n" using wfp j by (simp add: wf_frame_def list_all_length)
    have lw: "length (?W ! j) = ?n" using wfw j m idx by (simp add: wf_frame_def list_all_length)
    obtain p q w where v: "?Pr ! j ! Suc t = Some p" "?Pr ! j ! t = Some q" "q \<noteq> 0"
        "?W ! j ! Suc t = Some w"
      using ok j by fastforce
    have "pct_change (Suc 0) (?Pr ! j) ! Suc t = Some (p / q - 1)"
      using pct_change_nth[of t "?Pr ! j" p q] v lp t by simp
    then show ?thesis using j m lp lw t v
      by (simp add: cell_at_def length_pct_change mul_cell_def)
  qed
  have "row_of ?P (Suc t) = map (\<lambda>j. Some (?g j)) [0..<?m]"
  proof (rule nth_equalityI)
    show "length (row_of ?P (Suc t)) = length (map (\<lambda>j. Some (?g j)) [0..<?m])"
      using m by (simp add: row_of_def)
  next
    fix i assume "i < length (row_of ?P (Suc t))"
    then have i: "i < ?m" using m by (simp add: row_of_def)
    then have "row_of ?P (Suc t) ! i = cell_at (?P ! i) (Suc t)"
      unfolding row_of_def using lenP by (subst nth_map) auto
    then show "row_of ?P (Suc t) ! i = map (\<lambda>j. Some (?g j)) [0..<?m] ! i"
      using cell[OF i] i by simp
  qed
  then have "sum_list (valid (row_of ?P (Suc t))) = (\<Sum>j<?m. ?g j)"
    by (simp add: valid_map_Some sum_list_upt_lessThan)
  then show ?thesis using t idx by (simp add: run_returns_nth same)
qed

lemma length_cumprod_from: "length (cumprod_from acc xs) = length xs"
  by (induction xs arbitrary: acc) (auto split: option.splits)

lemma run_equity_nth:
  assumes "T < length (findex (weights bt))"
  shows "snd (snd (run bt)) ! T =
     Some (initial_capital bt * (\<Prod>t\<le>T. 1 + the (snd (fst (run bt)) ! t)))"
proof -
  let ?n = "length (findex (weights bt))"
  define f where "f = (\<lambda>i. sum_list (valid (row_of
      (aligned_product (fcolumns (weights bt)) (fdata (weights bt)) (fcolumns (prices bt))
                       (map (pct_change 1) (fdata (prices bt)))) i)))"
  have pr: "snd (fst (run bt)) = map (\<lambda>i. Some (f i)) [0..<?n]"
    by (simp add: run_def Let_def sum_axis1_def f_def)
  let ?vs = "map (\<lambda>i. 1 + f i) [0..<?n]"
  have one: "map (add_cell (Some 1)) (snd (fst (run bt))) = map Some ?vs"
    by (simp add: pr add_cell_def)
  have eq: "snd (snd (run bt)) =
      map (\<lambda>c. mul_cell c (Some (initial_capital bt))) (cumprod_from 1 (map Some ?vs))"
    using one by (simp add: run_def Let_def cumprod_def)
  have c: "cumprod_from 1 (map Some ?vs) ! T = Some (1 * prod_list (take (Suc T) ?vs))"
    by (rule cumprod_from_Some) (use assms in simp)
  have p: "prod_list (take (Suc T) ?vs) = (\<Prod>t\<le>T. ?vs ! t)"
    by (rule prod_list_take_Suc) (use assms in simp)
  have "(\<Prod>t\<le>T. ?vs ! t) = (\<Prod>t\<le>T. 1 + the (snd (fst (run bt)) ! t))"
    by (rule prod.cong) (use assms pr in auto)
  then show ?thesis using assms c p
    by (simp add: eq length_cumprod_from mul_cell_def mult.commute del: cumprod_from.simps)
qed
text \<open>
  C3, as stated, fails: on a price panel of two dates the returns series keeps both dates;
  the first date is not dropped, its return is 0.
\<close>

theorem run_keeps_first_date_counterexample:
  "length (findex (prices bt_ex)) = 2 \<and>
   length (fst (fst (run bt_ex))) \<noteq> length (findex (prices bt_ex)) - 1 \<and>
   fst (fst (run bt_ex)) = findex (prices bt_ex) \<and>
   snd (fst (run bt_ex)) = [Some 0, Some 1]"
  by (simp add: bt_ex_run) (simp add: bt_ex_fields)

text \<open>
  C3, amended: for price and weight tables aligned on the same \<open>n\<close> dates and the same
  asset columns (each asset named once), \<open>Backtest.run\<close> returns a portfolio returns series
  over the same \<open>n\<close> dates; its first entry is 0 (the undefined first-day asset returns are
  skipped by the sum), and every later entry at which the prices of both days and the
  weights are present (the earlier price not zero) is the sum over the assets of
  \<open>weight[t] * (price[t] / price[t-1] - 1)\<close>.
\<close>

theorem run_portfolio_returns:
  assumes "wf_frame (prices bt)" and "wf_frame (weights bt)"
    and "findex (weights bt) = findex (prices bt)"
    and "fcolumns (weights bt) = fcolumns (prices bt)"
    and "distinct (fcolumns (prices bt))"
  shows "fst (fst (run bt)) = findex (prices bt) \<and>
         length (snd (fst (run bt))) = length (findex (prices bt)) \<and>
         (0 < length (findex (prices bt)) \<longrightarrow> snd (fst (run bt)) ! 0 = Some 0) \<and>
         (Suc t < length (findex (prices bt)) \<and>
          (\<forall>j < length (fdata (prices bt)).
               fdata (prices bt) ! j ! Suc t \<noteq> None \<and> fdata (prices bt) ! j ! t \<noteq> None \<and>
               fdata (prices bt) ! j ! t \<noteq> Some 0 \<and> fdata (weights bt) ! j ! Suc t \<noteq> None)
          \<longrightarrow> snd (fst (run bt)) ! Suc t =
               Some (\<Sum>j < length (fdata (prices bt)).
                      the (fdata (weights bt) ! j ! Suc t) *
                      (the (fdata (prices bt) ! j ! Suc t) / the (fdata (prices bt) ! j ! t) - 1)))"
  using assms run_index[of bt] run_returns_length[of bt] run_first_zero[of bt]
    run_later[of bt t]
  by simp

theorem run_portfolio_returns_witness:
  "wf_frame (prices bt_ex) \<and> wf_frame (weights bt_ex) \<and>
   findex (weights bt_ex) = findex (prices bt_ex) \<and>
   fcolumns (weights bt_ex) = fcolumns (prices bt_ex) \<and>
   distinct (fcolumns (prices bt_ex)) \<and>
   0 < length (findex (prices bt_ex)) \<and> Suc 0 < length (findex (prices bt_ex)) \<and>
   length (fdata (prices bt_ex)) = 1 \<and>
   fdata (prices bt_ex) ! 0 ! Suc 0 = Some 200 \<and> fdata (prices bt_ex) ! 0 ! 0 = Some 100 \<and>
   fdata (weights bt_ex) ! 0 ! Suc 0 = Some 1 \<and>
   fst (fst (run bt_ex)) = [(2024,1,1),(2024,1,2)] \<and>
   length (snd (fst (run bt_ex))) = 2 \<and>
   snd (fst (run bt_ex)) ! 0 = Some 0 \<and>
   snd (fst (run bt_ex)) ! Suc 0 = Some (1 * (200 / 100 - 1))"
  using run_portfolio_returns[of bt_ex 0]
  by (simp add: bt_ex_fields wf_frame_def)

text \<open>
  C8: at every date \<open>T\<close> of the returns series, the equity curve equals the initial capital
  times the product over all \<open>t \<le> T\<close> of \<open>1 + portfolio_return[t]\<close>.
\<close>

theorem run_equity_curve_compounds:
  assumes "T < length (snd (fst (run bt)))"
  shows "snd (snd (run bt)) ! T =
     Some (initial_capital bt * (\<Prod>t\<le>T. 1 + the (snd (fst (run bt)) ! t)))"
  using assms run_equity_nth[of T bt] by (simp add: run_returns_length)

theorem run_equity_curve_compounds_witness:
  "Suc 0 < length (snd (fst (run bt_ex))) \<and>
   snd (snd (run bt_ex)) ! Suc 0 = Some (100000 * ((1 + 0) * (1 + 1)))"
  using run_equity_curve_compounds[of "Suc 0" bt_ex]
  by (simp add: bt_ex_run bt_ex_fields atMost_Suc)

text \<open>
  C9: on a returns series of length zero \<open>calculate_metrics\<close> returns the empty result; on a
  series of length at least one it returns the five named metrics, the total return among
  them defined. The function has no failing path.
\<close>

theorem calculate_metrics_empty_or_populated:
  "(length returns < 1 \<longrightarrow> calculate_metrics returns = []) \<and>
   (1 \<le> length returns \<longrightarrow>
      map fst (calculate_metrics returns) =
        [''Total Return'', ''Annualized Return'', ''Volatility'', ''Sharpe Ratio'',
         ''Max Drawdown''] \<and>
      (\<exists>x. map_of (calculate_metrics returns) ''Total Return'' = Some (Some x)))"
  by (cases returns) (simp_all add: calculate_metrics_def Let_def)

theorem calculate_metrics_empty_or_populated_witness:
  "length ([] :: cell list) < 1 \<and> calculate_metrics [] = [] \<and>
   1 \<le> length [Some (1 / 100) :: real option] \<and>
   map fst (calculate_metrics [Some (1 / 100)]) =
        [''Total Return'', ''Annualized Return'', ''Volatility'', ''Sharpe Ratio'',
         ''Max Drawdown'']"
  using calculate_metrics_empty_or_populated[of "[]"]
    calculate_metrics_empty_or_populated[of "[Some (1 / 100)]"]
  by simp

lemma float_pow_252: "float_pow b (252 / real (Suc 0)) = Some (b ^ 252)"
proof -
  have f: "\<lfloor>252::real\<rfloor> = 252" by simp
  have "b < 0 \<Longrightarrow> b powi 252 = b ^ 252" by (simp add: power_int_def)
  then show ?thesis
    by (auto simp: float_pow_def f)
qed

text \<open>
  C10: on a returns series of the single value \<open>r\<close>, Total Return is \<open>r\<close>, Annualized Return
  is \<open>(1 + r)^252 - 1\<close>, and Volatility and Sharpe Ratio are missing, the sample standard
  deviation of one observation being undefined.
\<close>

theorem calculate_metrics_single_observation:
  "calculate_metrics [Some r] =
     [(''Total Return'', Some r), (''Annualized Return'', Some ((1 + r) ^ 252 - 1)),
      (''Volatility'', None), (''Sharpe Ratio'', None),
      (''Max Drawdown'', max_drawdown_of [Some r])]"
  using float_pow_252[of "1 + r"]
  by (simp add: calculate_metrics_def Let_def add_cell_def valid_def std_skipna_def
      mul_cell_def div_cell_def sub_cell_def mean_skipna_def add.commute split: option.splits)

section \<open>Properties of the Allocator\<close>

lemma length_filter_zip_snd:
  "length xs = length ys \<Longrightarrow>
   length (filter (\<lambda>p. P (snd p)) (zip xs ys)) = length (filter P ys)"
  by (induction xs ys rule: list_induct2) auto

lemma length_valid_scores:
  "length (filter (\<lambda>p. snd p \<noteq> None) (zip [0..<length row] row)) = length (valid row)"
  using length_filter_zip_snd[of "[0..<length row]" row "\<lambda>c. c \<noteq> None"]
  by (simp add: valid_def)

lemma rebalance_row_skip:
  "int (length (valid row)) < k \<Longrightarrow> rebalance_row k m row = Inr (replicate m 0)"
  using length_valid_scores[of row] by (simp add: rebalance_row_def Let_def)

lemma rebalance_row_nonzero:
  "k \<noteq> 0 \<Longrightarrow> \<exists>w. rebalance_row k m row = Inr w"
  by (simp add: rebalance_row_def Let_def)

lemma rebalance_row_length:
  "rebalance_row k m row = Inr w \<Longrightarrow> length w = m"
  by (auto simp: rebalance_row_def Let_def split: if_splits)










lemma weights_loop_map_of:
  "weights_loop k m rows = Inr ws \<Longrightarrow>
   (case map_of rows d of None \<Rightarrow> map_of ws d = None
    | Some row \<Rightarrow> \<exists>w. rebalance_row k m row = Inr w \<and> map_of ws d = Some w)"
proof (induction rows arbitrary: ws)
  case Nil then show ?case by simp
next
  case (Cons a rows)
  obtain d' row' where a: "a = (d', row')" by (cases a)
  from Cons.prems a obtain w' ws' where
    r: "rebalance_row k m row' = Inr w'" and l: "weights_loop k m rows = Inr ws'"
    and ws: "ws = (d', w') # ws'"
    by (auto split: sum.splits)
  show ?case using Cons.IH[OF l] r ws a by (auto split: option.splits)
qed

lemma weights_loop_nonzero:
  "k \<noteq> 0 \<Longrightarrow> \<exists>ws. weights_loop k m rows = Inr ws"
proof (induction rows)
  case Nil then show ?case by simp
next
  case (Cons a rows)
  obtain d row where a: "a = (d, row)" by (cases a)
  from rebalance_row_nonzero[OF Cons.prems, of m row] obtain w where
    "rebalance_row k m row = Inr w" by blast
  then show ?case using Cons a by auto
qed

lemma month_key_month_end: "month_key (month_end k) = k"
  by (simp add: month_key_def month_end_def)

lemma map_of_month_table:
  "map_of (map (\<lambda>k. (month_end k, g k)) ks) d =
     (if is_month_end d \<and> month_key d \<in> set ks then Some (g (month_key d)) else None)"
  by (induction ks) (auto simp: is_month_end_def month_key_month_end)

lemma map_of_resample:
  "idx \<noteq> [] \<Longrightarrow>
   map_of (resample_ME_last idx df) d =
     (if is_month_end d \<and> month_key (hd idx) \<le> month_key d \<and> month_key d \<le> month_key (last idx)
      then Some (map (\<lambda>c. last_valid (in_month (month_key d) idx c)) df) else None)"
  unfolding resample_ME_last_def
  by (simp only: if_False map_of_month_table) auto

lemma date_lt_month_key:
  "date_lt a b \<Longrightarrow> valid_date a \<Longrightarrow> valid_date b \<Longrightarrow> month_key a \<le> month_key b"
  by (auto simp: date_lt_def valid_date_def month_key_def)

lemma calendar_hd:
  assumes "calendar idx" "d \<in> set idx"
  shows "month_key (hd idx) \<le> month_key d"
proof (cases idx)
  case Nil then show ?thesis using assms by simp
next
  case (Cons x xs)
  show ?thesis
  proof (cases "d = x")
    case True then show ?thesis using Cons by simp
  next
    case False
    then have "d \<in> set xs" using assms(2) Cons by simp
    then have "date_lt x d" "valid_date x" "valid_date d"
      using assms(1) Cons by (auto simp: calendar_def list_all_iff)
    then show ?thesis using Cons by (simp add: date_lt_month_key)
  qed
qed

lemma calendar_last:
  assumes "calendar idx" "d \<in> set idx"
  shows "month_key d \<le> month_key (last idx)"
proof (cases idx rule: rev_cases)
  case Nil then show ?thesis using assms by simp
next
  case (snoc xs x)
  show ?thesis
  proof (cases "d = x")
    case True then show ?thesis using snoc by simp
  next
    case False
    then have "d \<in> set xs" using assms(2) snoc by simp
    then have "date_lt d x" "valid_date x" "valid_date d"
      using assms(1) snoc by (auto simp: calendar_def list_all_iff sorted_wrt_append)
    then show ?thesis using snoc by (simp add: date_lt_month_key)
  qed
qed

lemma map_of_resample_calendar:
  assumes "calendar idx" "d \<in> set idx"
  shows "map_of (resample_ME_last idx df) d =
     (if is_month_end d then Some (map (\<lambda>c. last_valid (in_month (month_key d) idx c)) df)
      else None)"
proof -
  have "idx \<noteq> []" using assms(2) by auto
  then show ?thesis
    using calendar_hd[OF assms] calendar_last[OF assms] by (simp add: map_of_resample)
qed

lemma last_valid_Nil: "last_valid [] = None"
  by (simp add: last_valid_def)

lemma last_valid_Cons:
  "last_valid (x # xs) = (case last_valid xs of None \<Rightarrow> x | Some v \<Rightarrow> Some v)"
proof (cases "filter (\<lambda>c. c \<noteq> None) xs")
  case Nil
  then show ?thesis by (cases x) (simp_all add: last_valid_def)
next
  case (Cons y ys)
  then have "y \<in> set (filter (\<lambda>c. c \<noteq> None) xs)" by simp
  have "last (y # ys) \<in> set (filter (\<lambda>c. c \<noteq> None) xs)"
    using Cons last_in_set[of "y # ys"] by simp
  then obtain v where v: "last (y # ys) = Some v" by auto
  show ?thesis using Cons v by (cases x) (simp_all add: last_valid_def)
qed

lemma ffill_from_nth:
  "i < length xs \<Longrightarrow>
   ffill_from p xs ! i = (case last_valid (take (Suc i) xs) of None \<Rightarrow> p | Some v \<Rightarrow> Some v)"
proof (induction xs arbitrary: p i)
  case Nil then show ?case by simp
next
  case (Cons x xs)
  show ?case
  proof (cases i)
    case 0
    then show ?thesis by (cases x) (simp_all add: last_valid_Cons last_valid_Nil)
  next
    case (Suc i')
    then have i': "i' < length xs" using Cons.prems by simp
    show ?thesis
      using Cons.IH[OF i'] Suc
      by (cases x) (simp_all add: last_valid_Cons split: option.splits)
  qed
qed

lemma ffill_nth: "i < length xs \<Longrightarrow> ffill xs ! i = last_valid (take (Suc i) xs)"
  by (simp add: ffill_def ffill_from_nth split: option.splits)

lemma length_ffill: "length (ffill xs) = length xs"
  by (simp add: ffill_def length_ffill_from)

lemma shift1_nth:
  "i < length xs \<Longrightarrow> shift (Suc 0) xs ! i = (if i = 0 then None else xs ! (i - 1))"
  by (cases i) (simp_all add: shift_def)

lemma length_shift: "length (shift k xs) = length xs"
  by (simp add: shift_def)

lemma allocate_Inr:
  "allocate k idx columns scores = Inr W \<Longrightarrow>
   \<exists>monthly. weights_loop k (length columns) (resample_ME_last idx scores) = Inr monthly \<and>
     W = \<lparr>findex = idx, fcolumns = columns,
          fdata = map (\<lambda>j. fillna 0 (shift 1 (ffill (reindex_weights monthly j idx))))
                      [0..<length columns]\<rparr>"
  by (auto simp: allocate_def Let_def split: sum.splits)

lemma allocate_nonzero:
  "k \<noteq> 0 \<Longrightarrow> \<exists>W. allocate k idx columns scores = Inr W"
  using weights_loop_nonzero[of k "length columns" "resample_ME_last idx scores"]
  by (auto simp: allocate_def Let_def)

lemma allocate_shape:
  assumes "allocate k idx columns scores = Inr W"
  shows "findex W = idx" "fcolumns W = columns" "length (fdata W) = length columns"
    "j < length columns \<Longrightarrow> length (fdata W ! j) = length idx"
  using allocate_Inr[OF assms]
  by (auto simp: fillna_def length_shift length_ffill reindex_weights_def)

lemma last_valid_reindex_weights:
  "last_valid (reindex_weights monthly j ds) =
     (case filter (\<lambda>d. map_of monthly d \<noteq> None) ds of
        [] \<Rightarrow> None
      | y # ys \<Rightarrow> Some (the (map_of monthly (last (y # ys))) ! j))"
proof -
  let ?f = "\<lambda>d. case map_of monthly d of None \<Rightarrow> None | Some ws \<Rightarrow> Some (ws ! j)"
  have f: "filter (\<lambda>c. c \<noteq> None) (map ?f ds) = map ?f (filter (\<lambda>d. map_of monthly d \<noteq> None) ds)"
    by (induction ds) (auto split: option.splits)
  show ?thesis
  proof (cases "filter (\<lambda>d. map_of monthly d \<noteq> None) ds")
    case Nil
    then show ?thesis unfolding last_valid_def reindex_weights_def f by simp
  next
    case (Cons y ys)
    have "last (y # ys) \<in> set (filter (\<lambda>d. map_of monthly d \<noteq> None) ds)"
      using Cons last_in_set[of "y # ys"] by simp
    then obtain w where w: "map_of monthly (last (y # ys)) = Some w" by auto
    have l: "last (map ?f (y # ys)) = ?f (last (y # ys))" by (rule last_map) simp
    have "last_valid (map ?f ds) = last (map ?f (y # ys))"
      unfolding last_valid_def f Cons by (simp del: last.simps)
    also have "\<dots> = Some (w ! j)" unfolding l using w by simp
    finally show ?thesis unfolding reindex_weights_def Cons using w by (simp del: last.simps)
  qed
qed

lemma allocate_fdata_nth:
  assumes "allocate k idx columns scores = Inr W" "j < length columns"
  shows "\<exists>monthly. weights_loop k (length columns) (resample_ME_last idx scores) = Inr monthly \<and>
           fdata W ! j = fillna 0 (shift (Suc 0) (ffill (reindex_weights monthly j idx)))"
proof -
  from allocate_Inr[OF assms(1)] obtain monthly where
    m: "weights_loop k (length columns) (resample_ME_last idx scores) = Inr monthly" and
    W: "W = \<lparr>findex = idx, fcolumns = columns,
          fdata = map (\<lambda>j. fillna 0 (shift 1 (ffill (reindex_weights monthly j idx))))
                      [0..<length columns]\<rparr>" by blast
  have "fdata W ! j = fillna 0 (shift (Suc 0) (ffill (reindex_weights monthly j idx)))"
    using assms(2) by (simp add: W)
  then show ?thesis using m by blast
qed

lemma allocate_cell_first:
  assumes "allocate k idx columns scores = Inr W" "j < length columns" "0 < length idx"
  shows "fdata W ! j ! 0 = Some 0"
proof -
  from allocate_fdata_nth[OF assms(1,2)] obtain monthly where
    W: "fdata W ! j = fillna 0 (shift (Suc 0) (ffill (reindex_weights monthly j idx)))" by blast
  let ?c = "ffill (reindex_weights monthly j idx)"
  have l: "length ?c = length idx" by (simp add: length_ffill reindex_weights_def)
  have "shift (Suc 0) ?c ! 0 = None" using shift1_nth[of 0 ?c] l assms(3) by simp
  then show ?thesis using assms(3) l by (simp add: W fillna_def length_shift)
qed

lemma allocate_cell_monthly:
  assumes "allocate k idx columns scores = Inr W" "j < length columns" "Suc i < length idx"
  shows "\<exists>monthly. weights_loop k (length columns) (resample_ME_last idx scores) = Inr monthly \<and>
     fdata W ! j ! Suc i =
       (case filter (\<lambda>d. map_of monthly d \<noteq> None) (take (Suc i) idx) of
          [] \<Rightarrow> Some 0
        | y # ys \<Rightarrow> Some (the (map_of monthly (last (y # ys))) ! j))"
proof -
  from allocate_fdata_nth[OF assms(1,2)] obtain monthly where
    m: "weights_loop k (length columns) (resample_ME_last idx scores) = Inr monthly" and
    W: "fdata W ! j = fillna 0 (shift (Suc 0) (ffill (reindex_weights monthly j idx)))" by blast
  let ?r = "reindex_weights monthly j idx"
  have lr: "length ?r = length idx" by (simp add: reindex_weights_def)
  have t: "take (Suc i) ?r = reindex_weights monthly j (take (Suc i) idx)"
    by (simp add: reindex_weights_def take_map)
  have "shift (Suc 0) (ffill ?r) ! Suc i = ffill ?r ! i"
    using shift1_nth[of "Suc i" "ffill ?r"] assms(3) lr by (simp add: length_ffill)
  also have "\<dots> = last_valid (take (Suc i) ?r)"
    using ffill_nth[of i ?r] assms(3) lr by simp
  also have "\<dots> = (case filter (\<lambda>d. map_of monthly d \<noteq> None) (take (Suc i) idx) of
        [] \<Rightarrow> None | y # ys \<Rightarrow> Some (the (map_of monthly (last (y # ys))) ! j))"
    unfolding t by (rule last_valid_reindex_weights)
  finally have s: "shift (Suc 0) (ffill ?r) ! Suc i =
      (case filter (\<lambda>d. map_of monthly d \<noteq> None) (take (Suc i) idx) of
        [] \<Rightarrow> None | y # ys \<Rightarrow> Some (the (map_of monthly (last (y # ys))) ! j))" .
  have "fdata W ! j ! Suc i =
      (case shift (Suc 0) (ffill ?r) ! Suc i of None \<Rightarrow> Some 0 | Some x \<Rightarrow> Some x)"
    using assms(3) lr by (simp add: W fillna_def length_shift length_ffill)
  then show ?thesis using m s by (auto simp del: not_None_eq split: list.splits)
qed

lemma monthly_some_iff:
  assumes "calendar idx" "weights_loop k m (resample_ME_last idx scores) = Inr monthly"
    "d \<in> set idx"
  shows "map_of monthly d \<noteq> None \<longleftrightarrow> is_month_end d"
  using weights_loop_map_of[OF assms(2), of d] map_of_resample_calendar[OF assms(1,3), of scores]
  by (auto split: if_splits)

lemma monthly_filter:
  assumes "calendar idx" "weights_loop k m (resample_ME_last idx scores) = Inr monthly"
  shows "filter (\<lambda>d. map_of monthly d \<noteq> None) (take n idx) = filter is_month_end (take n idx)"
proof (rule filter_cong[OF refl])
  fix d assume "d \<in> set (take n idx)"
  then have "d \<in> set idx" by (rule in_set_takeD)
  then show "(map_of monthly d \<noteq> None) = is_month_end d"
    using monthly_some_iff[OF assms] by simp
qed

lemma governing_in_set: "governing ds = Some d \<Longrightarrow> d \<in> set ds \<and> is_month_end d"
proof -
  assume g: "governing ds = Some d"
  then obtain y ys where f: "filter is_month_end ds = y # ys" and d: "d = last (y # ys)"
    by (auto simp: governing_def split: list.splits)
  have "last (y # ys) \<in> set (filter is_month_end ds)"
    using f last_in_set[of "y # ys"] by simp
  then show ?thesis using d by simp
qed

lemma allocate_cell:
  assumes cal: "calendar idx" and a: "allocate k idx columns scores = Inr W"
    and j: "j < length columns" and i: "Suc i < length idx"
  shows "fdata W ! j ! Suc i =
     (case governing (take (Suc i) idx) of
        None \<Rightarrow> Some 0
      | Some d \<Rightarrow>
          (case map_of (resample_ME_last idx scores) d of
             None \<Rightarrow> Some 0
           | Some srow \<Rightarrow> Some (projr (rebalance_row k (length columns) srow) ! j)))"
proof -
  from allocate_cell_monthly[OF a j i] obtain monthly where
    m: "weights_loop k (length columns) (resample_ME_last idx scores) = Inr monthly" and
    c: "fdata W ! j ! Suc i =
       (case filter (\<lambda>d. map_of monthly d \<noteq> None) (take (Suc i) idx) of
          [] \<Rightarrow> Some 0
        | y # ys \<Rightarrow> Some (the (map_of monthly (last (y # ys))) ! j))" by blast
  note c = c[unfolded monthly_filter[OF cal m, of "Suc i"]]
  show ?thesis
  proof (cases "governing (take (Suc i) idx)")
    case None
    then have "filter is_month_end (take (Suc i) idx) = []"
      by (auto simp: governing_def split: list.splits)
    then show ?thesis using c None by simp
  next
    case (Some d)
    then obtain y ys where fy: "filter is_month_end (take (Suc i) idx) = y # ys"
      and d: "d = last (y # ys)"
      by (auto simp: governing_def split: list.splits)
    from governing_in_set[OF Some] have din: "d \<in> set idx" and me: "is_month_end d"
      by (auto dest: in_set_takeD)
    from map_of_resample_calendar[OF cal din, of scores] me obtain srow where
      srow: "map_of (resample_ME_last idx scores) d = Some srow" by simp
    from weights_loop_map_of[OF m, of d] srow obtain w where
      w: "rebalance_row k (length columns) srow = Inr w" "map_of monthly d = Some w" by auto
    show ?thesis using c Some srow w d by (simp add: fy del: last.simps)
  qed
qed

lemmas alloc_eval = allocate_def resample_ME_last_def month_key_def month_end_def
  days_in_month_def leap_year_def in_month_def last_valid_def rebalance_row_def nlargest_def
  reindex_weights_def fillna_def shift_def ffill_def Let_def

lemma ex1_resample:
  "resample_ME_last ex1_idx ex1_scores =
     [((2024,1,31), [Some 1, Some 0]), ((2024,2,29), [None, None]), ((2024,3,31), [Some 1, Some 2])]"
  by (simp add: ex1_idx_def ex1_scores_def alloc_eval)

lemma ex1_allocate:
  "allocate 1 ex1_idx [''A'', ''B''] ex1_scores =
     Inr ex1_weights"
  unfolding allocate_def ex1_resample Let_def
  by (simp add: ex1_weights_def ex1_idx_def rebalance_row_def nlargest_def reindex_weights_def fillna_def shift_def ffill_def Let_def)

lemma ex1_calendar: "calendar ex1_idx"
  by (simp add: calendar_def ex1_idx_def valid_date_def date_lt_def days_in_month_def leap_year_def)

lemma ex1_governing: "governing (take 3 ex1_idx) = Some (2024,2,29)"
  by (simp add: governing_def ex1_idx_def is_month_end_def month_key_def month_end_def days_in_month_def leap_year_def)

lemma ex2_resample:
  "resample_ME_last ex2_idx ex2_scores =
     [((2024,3,31), [Some 1, Some 0]), ((2024,4,30), [Some 1, Some 0])]"
  by (simp add: ex2_idx_def ex2_scores_def alloc_eval)

lemma ex2_allocate:
  "allocate 1 ex2_idx [''A'', ''B''] ex2_scores =
     Inr ex2_weights"
  unfolding allocate_def ex2_resample Let_def
  by (simp add: ex2_weights_def ex2_idx_def rebalance_row_def nlargest_def reindex_weights_def fillna_def shift_def ffill_def Let_def)

lemma ex_rebalance_row: "rebalance_row 1 2 [Some 1, Some 0] = Inr [1, 0]"
  by (simp add: rebalance_row_def nlargest_def Let_def numeral_2_eq_2)

lemma allocate_governed:
  assumes cal: "calendar idx" and a: "allocate k idx columns scores = Inr W"
    and i: "Suc i < length idx" and g: "governing (take (Suc i) idx) = Some d"
  shows "\<exists>srow w. map_of (resample_ME_last idx scores) d = Some srow \<and>
           rebalance_row k (length columns) srow = Inr w \<and>
           (\<forall>j < length columns. fdata W ! j ! Suc i = Some (w ! j))"
proof -
  from allocate_Inr[OF a] obtain monthly where
    m: "weights_loop k (length columns) (resample_ME_last idx scores) = Inr monthly" by blast
  from governing_in_set[OF g] have din: "d \<in> set idx" and me: "is_month_end d"
    by (auto dest: in_set_takeD)
  from map_of_resample_calendar[OF cal din, of scores] me obtain srow where
    srow: "map_of (resample_ME_last idx scores) d = Some srow" by simp
  from weights_loop_map_of[OF m, of d] srow obtain w where
    w: "rebalance_row k (length columns) srow = Inr w" by auto
  have "\<forall>j < length columns. fdata W ! j ! Suc i = Some (w ! j)"
    using allocate_cell[OF cal a _ i] g srow w by simp
  then show ?thesis using srow w by blast
qed

lemma allocate_ungoverned:
  assumes cal: "calendar idx" and a: "allocate k idx columns scores = Inr W"
    and i: "Suc i < length idx" and g: "governing (take (Suc i) idx) = None"
    and j: "j < length columns"
  shows "fdata W ! j ! Suc i = Some 0"
  using allocate_cell[OF cal a j i] g by simp

lemma row_of_nth:
  "row_of cols i = map (\<lambda>j. cell_at (cols ! j) i) [0..<length cols]"
  unfolding row_of_def by (rule nth_equalityI) auto

lemma allocate_row_of:
  assumes a: "allocate k idx columns scores = Inr W" and i: "i < length idx"
  shows "row_of (fdata W) i = map (\<lambda>j. fdata W ! j ! i) [0..<length columns]"
  unfolding row_of_nth using allocate_shape[OF a] i by (simp add: cell_at_def)



lemma map_nth_upt: "length w = m \<Longrightarrow> map (\<lambda>j. f (w ! j)) [0..<m] = map f w"
  by (rule nth_equalityI) auto

text \<open>Row \<open>i\<close> of the daily weights is a row of zeros or a monthly target row.\<close>

lemma allocate_row_cases:
  assumes cal: "calendar idx" and a: "allocate k idx columns scores = Inr W"
    and i: "i < length idx"
  shows "row_of (fdata W) i = replicate (length columns) (Some 0) \<and>
           (i = 0 \<or> governing (take i idx) = None) \<or>
         (\<exists>d srow w. governing (take i idx) = Some d \<and>
            map_of (resample_ME_last idx scores) d = Some srow \<and>
            rebalance_row k (length columns) srow = Inr w \<and>
            row_of (fdata W) i = map Some w)"
proof (cases i)
  case 0
  have "map (\<lambda>j. fdata W ! j ! 0) [0..<length columns] = map (\<lambda>j. Some 0) [0..<length columns]"
    using allocate_cell_first[OF a] i 0 by simp
  then show ?thesis using 0 allocate_row_of[OF a i] by (simp add: map_replicate_const)
next
  case (Suc i')
  then have i': "Suc i' < length idx" using i by simp
  show ?thesis
  proof (cases "governing (take (Suc i') idx)")
    case None
    have "map (\<lambda>j. fdata W ! j ! Suc i') [0..<length columns] =
          map (\<lambda>j. Some 0) [0..<length columns]"
      using allocate_ungoverned[OF cal a i' None] by simp
    then show ?thesis using Suc None allocate_row_of[OF a i] by (simp add: map_replicate_const)
  next
    case (Some d)
    from allocate_governed[OF cal a i' Some] obtain srow w where
      s: "map_of (resample_ME_last idx scores) d = Some srow"
      and w: "rebalance_row k (length columns) srow = Inr w"
      and c: "\<forall>j < length columns. fdata W ! j ! Suc i' = Some (w ! j)" by blast
    have "map (\<lambda>j. fdata W ! j ! Suc i') [0..<length columns] =
          map (\<lambda>j. Some (w ! j)) [0..<length columns]"
      using c by simp
    also have "\<dots> = map Some w" using rebalance_row_length[OF w] by (rule map_nth_upt)
    finally show ?thesis using Suc Some s w allocate_row_of[OF a i] by simp
  qed
qed


text \<open>
  C1, as stated, fails: February has fewer than \<open>K = 1\<close> scored assets and its month-end,
  29 February, is a trading day; from the next trading day on the weights are all zero,
  the weights held before (asset A in full) do not persist.
\<close>

theorem skipped_month_resets_weights_counterexample:
  "map_of (resample_ME_last ex1_idx ex1_scores) (2024,2,29) = Some [None, None] \<and>
   int (length (valid [None, None])) < 1 \<and>
   allocate 1 ex1_idx [''A'', ''B''] ex1_scores = Inr ex1_weights \<and>
   row_of (fdata ex1_weights) 2 = [Some 1, Some 0] \<and>
   row_of (fdata ex1_weights) 3 = [Some 0, Some 0] \<and>
   row_of (fdata ex1_weights) 3 \<noteq> row_of (fdata ex1_weights) 2"
  by (simp add: ex1_allocate ex1_resample valid_def ex1_weights_def row_of_def cell_at_def)

text \<open>
  C1, amended: a rebalance month with fewer than \<open>K\<close> non-missing monthly scores raises no
  error and keeps its row of the monthly weight table all zero; when the month's last
  calendar day \<open>d\<close> is a trading day, the daily weights of every trading day after \<open>d\<close>, as
  long as \<open>d\<close> is the last month-end date among the trading days before it, are all zero.
\<close>

theorem allocate_skipped_month:
  assumes "calendar idx" and "Suc i < length idx"
    and "governing (take (Suc i) idx) = Some d"
    and "map_of (resample_ME_last idx scores) d = Some srow"
    and "int (length (valid srow)) < k"
  shows "rebalance_row k (length columns) srow = Inr (replicate (length columns) 0) \<and>
         (\<exists>W. allocate k idx columns scores = Inr W \<and>
              row_of (fdata W) (Suc i) = replicate (length columns) (Some 0))"
proof -
  have "k \<noteq> 0" using assms(5) by auto
  then obtain W where a: "allocate k idx columns scores = Inr W"
    using allocate_nonzero by blast
  have skip: "rebalance_row k (length columns) srow = Inr (replicate (length columns) 0)"
    using assms(5) by (rule rebalance_row_skip)
  have i: "Suc i < length idx" by (rule assms(2))
  from allocate_row_cases[OF assms(1) a i]
  have "row_of (fdata W) (Suc i) = replicate (length columns) (Some 0)"
    using assms(3,4) skip by (auto simp: map_replicate)
  then show ?thesis using a skip by blast
qed

theorem allocate_skipped_month_witness:
  "calendar ex1_idx \<and> Suc 2 < length ex1_idx \<and>
   governing (take (Suc 2) ex1_idx) = Some (2024,2,29) \<and>
   map_of (resample_ME_last ex1_idx ex1_scores) (2024,2,29) = Some [None, None] \<and>
   int (length (valid [None, None])) < 1 \<and>
   rebalance_row 1 (length [''A'', ''B'']) [None, None] = Inr (replicate (length [''A'', ''B'']) 0) \<and>
   (\<exists>W. allocate 1 ex1_idx [''A'', ''B''] ex1_scores = Inr W \<and>
        row_of (fdata W) (Suc 2) = replicate (length [''A'', ''B'']) (Some 0))"
proof -
  have g: "governing (take (Suc 2) ex1_idx) = Some (2024,2,29)"
    using ex1_governing by (simp add: numeral_3_eq_3)
  have m: "map_of (resample_ME_last ex1_idx ex1_scores) (2024,2,29) = Some [None, None]"
    by (simp add: ex1_resample)
  have v: "int (length (valid [None, None])) < 1" by (simp add: valid_def)
  have l: "Suc 2 < length ex1_idx" by (simp add: ex1_idx_def)
  show ?thesis
    using allocate_skipped_month[OF ex1_calendar l g m v, of "[''A'', ''B'']"] g m v l ex1_calendar
    by blast
qed

text \<open>
  C2 on a calendar whose March month-end (31 March 2024, a Sunday) is not a trading day:
  the March selection is made (asset A gets weight 1 in the monthly table), but no trading
  day after that month-end carries it; the daily weights of 1 and 2 April are all zero.
\<close>

theorem allocate_drops_month_end_off_calendar:
  "(2024,3,31) \<notin> set ex2_idx \<and>
   map_of (resample_ME_last ex2_idx ex2_scores) (2024,3,31) = Some [Some 1, Some 0] \<and>
   rebalance_row 1 2 [Some 1, Some 0] = Inr [1, 0] \<and>
   allocate 1 ex2_idx [''A'', ''B''] ex2_scores = Inr ex2_weights \<and>
   row_of (fdata ex2_weights) 2 = [Some 0, Some 0] \<and>
   row_of (fdata ex2_weights) 3 = [Some 0, Some 0]"
  by (simp add: ex2_allocate ex2_resample ex_rebalance_row)
     (simp add: ex2_idx_def ex2_weights_def row_of_def cell_at_def)



section \<open>Properties of the trend oscillator\<close>

lemma take_drop_nth: "a + p \<le> length zs \<Longrightarrow> take p (drop a zs) = map ((!) zs) [a..<a + p]"
  by (rule nth_equalityI) auto

lemma rolling_nth:
  assumes "0 < w" "w \<le> Suc i" "i < length xs"
    and "\<forall>t. Suc i - w \<le> t \<and> t \<le> i \<longrightarrow> xs ! t \<noteq> None"
  shows "rolling w agg xs ! i = agg (map (\<lambda>t. the (xs ! t)) [Suc i - w..<Suc i])"
proof -
  have le: "(Suc i - w) + w \<le> length xs" using assms(2,3) by simp
  have win: "take w (drop (Suc i - w) xs) = map ((!) xs) [Suc i - w..<Suc i]"
    using take_drop_nth[OF le] assms(2) by simp
  have all: "list_all (\<lambda>c. c \<noteq> None) (map ((!) xs) [Suc i - w..<Suc i])"
    using assms(4) by (auto simp: list_all_iff simp del: not_None_eq)
  have "rolling w agg xs ! i = agg (map the (map ((!) xs) [Suc i - w..<Suc i]))"
    using assms(1,2,3) all by (simp add: rolling_def Let_def win del: not_None_eq)
  then show ?thesis by (simp add: o_def)
qed

lemma length_rolling: "length (rolling w agg xs) = length xs"
  by (simp add: rolling_def)

lemma length_diff: "length (diff xs) = length xs"
  by (simp add: diff_def shift_def)

lemma diff_nth:
  assumes "Suc t < length xs" "xs ! t = Some a" "xs ! Suc t = Some b"
  shows "diff xs ! Suc t = Some (b - a)"
proof -
  have "shift (Suc 0) xs ! Suc t = xs ! t" using shift1_nth[of "Suc t" xs] assms(1) by simp
  then show ?thesis using assms by (simp add: diff_def length_shift sub_cell_def)
qed

lemma calculate_rsi_nth:
  assumes p: "0 < p" and pi: "p \<le> i" and i: "i < length xs"
    and ok: "\<forall>t. i - p \<le> t \<and> t \<le> i \<longrightarrow> xs ! t \<noteq> None"
  shows "calculate_rsi xs p ! i =
           Some (100 - 100 / (1 + avg_gain xs p i / (avg_loss xs p i + eps)))"
proof -
  let ?G = "map (where_cell (\<lambda>v. v > 0) 0) (diff xs)"
  let ?L = "map (\<lambda>c. neg_cell (where_cell (\<lambda>v. v < 0) 0 c)) (diff xs)"
  let ?ts = "[Suc i - p..<Suc i]"
  have d: "diff xs ! t = Some (the (xs ! t) - the (xs ! (t - 1)))" if "t \<in> set ?ts" for t
  proof -
    from that pi have t: "0 < t" "t \<le> i" "i - p \<le> t - 1" "i - p \<le> t" by auto
    then obtain a b where ab: "xs ! (t - 1) = Some a" "xs ! t = Some b"
      using ok by (metis diff_le_self le_trans not_None_eq)
    have "diff xs ! Suc (t - 1) = Some (b - a)"
      by (rule diff_nth) (use t i ab in auto)
    then show ?thesis using t ab by simp
  qed
  have g: "the (?G ! t) = max (the (xs ! t) - the (xs ! (t - 1))) 0" if "t \<in> set ?ts" for t
  proof -
    have "t < length (diff xs)" using that i by (auto simp: length_diff)
    then show ?thesis using d[OF that] by (simp add: where_cell_def max_def)
  qed
  have l: "the (?L ! t) = max (the (xs ! (t - 1)) - the (xs ! t)) 0" if "t \<in> set ?ts" for t
  proof -
    have "t < length (diff xs)" using that i by (auto simp: length_diff)
    then show ?thesis using d[OF that] by (simp add: where_cell_def neg_cell_def max_def)
  qed
  have gs: "\<forall>t. Suc i - p \<le> t \<and> t \<le> i \<longrightarrow> ?G ! t \<noteq> None"
    using i by (auto simp: length_diff where_cell_def split: option.splits)
  have ls: "\<forall>t. Suc i - p \<le> t \<and> t \<le> i \<longrightarrow> ?L ! t \<noteq> None"
    using i by (auto simp: length_diff where_cell_def neg_cell_def split: option.splits)
  have len: "length (map (\<lambda>t. the (?G ! t)) ?ts) = p" "length (map (\<lambda>t. the (?L ! t)) ?ts) = p"
    using pi by auto
  have "rolling p mean_agg ?G ! i = mean_agg (map (\<lambda>t. the (?G ! t)) ?ts)"
    by (rule rolling_nth) (use p pi i gs in \<open>auto simp: length_diff\<close>)
  also have "\<dots> = Some (sum_list (map (\<lambda>t. the (?G ! t)) ?ts) / real p)"
    unfolding mean_agg_def len ..
  also have "map (\<lambda>t. the (?G ! t)) ?ts = map (\<lambda>t. max (the (xs ! t) - the (xs ! (t - 1))) 0) ?ts"
    by (rule map_cong[OF refl]) (rule g)
  finally have G: "rolling p mean_agg ?G ! i = Some (avg_gain xs p i)"
    by (simp add: avg_gain_def)
  have "rolling p mean_agg ?L ! i = mean_agg (map (\<lambda>t. the (?L ! t)) ?ts)"
    by (rule rolling_nth) (use p pi i ls in \<open>auto simp: length_diff\<close>)
  also have "\<dots> = Some (sum_list (map (\<lambda>t. the (?L ! t)) ?ts) / real p)"
    unfolding mean_agg_def len ..
  also have "map (\<lambda>t. the (?L ! t)) ?ts = map (\<lambda>t. max (the (xs ! (t - 1)) - the (xs ! t)) 0) ?ts"
    by (rule map_cong[OF refl]) (rule l)
  finally have L: "rolling p mean_agg ?L ! i = Some (avg_loss xs p i)"
    by (simp add: avg_loss_def)
  have "0 \<le> sum_list (map (\<lambda>t. max (the (xs ! (t - 1)) - the (xs ! t)) 0) ?ts)"
    by (rule sum_list_nonneg) auto
  then have nl: "0 \<le> avg_loss xs p i" unfolding avg_loss_def by (rule divide_nonneg_nonneg) simp
  have "0 \<le> sum_list (map (\<lambda>t. max (the (xs ! t) - the (xs ! (t - 1))) 0) ?ts)"
    by (rule sum_list_nonneg) auto
  then have ng: "0 \<le> avg_gain xs p i" unfolding avg_gain_def by (rule divide_nonneg_nonneg) simp
  have lp: "0 < avg_loss xs p i + eps" using nl by (simp add: eps_def add_nonneg_pos)
  have "0 \<le> avg_gain xs p i / (avg_loss xs p i + eps)"
    using ng lp by (simp add: divide_nonneg_pos)
  then have "0 < 1 + avg_gain xs p i / (avg_loss xs p i + eps)" by linarith
  then have pos: "avg_loss xs p i + eps \<noteq> 0" "1 + avg_gain xs p i / (avg_loss xs p i + eps) \<noteq> 0"
    using lp by auto
  show ?thesis
    using G L pos i
    by (simp add: calculate_rsi_def Let_def length_rolling length_diff
        div_cell_def add_cell_def sub_cell_def)
qed

lemma ex_rising_rsi: "calculate_rsi ex_rising 14 ! 14 = Some (100000000 / 1000001)"
  by (simp add: ex_rising_def calculate_rsi_def diff_def shift_def rolling_def where_cell_def
      neg_cell_def mean_agg_def eps_def add_cell_def sub_cell_def div_cell_def Let_def)

lemma ex_rising_avg: "avg_gain ex_rising 14 14 = 1" "avg_loss ex_rising 14 14 = 0"
  by (simp_all add: avg_gain_def avg_loss_def ex_rising_def upt_rec)

text \<open>
  C4, as stated, fails: on fifteen prices rising by 1 a day the average gain is 1 and the
  average loss 0, and the factor is \<open>100 - 100/(1 + 1/1e-6)\<close>, just below 100, while the
  ratio of the claim, gain over (gain + loss + \<open>1e-6\<close>), would give a value just above 50.
\<close>

theorem calculate_rsi_ratio_counterexample:
  "avg_gain ex_rising 14 14 = 1 \<and> avg_loss ex_rising 14 14 = 0 \<and>
   calculate_rsi ex_rising 14 ! 14 = Some (100000000 / 1000001) \<and>
   calculate_rsi ex_rising 14 ! 14 \<noteq>
     Some (100 - 100 / (1 + avg_gain ex_rising 14 14 /
                            (avg_gain ex_rising 14 14 + avg_loss ex_rising 14 14 + eps)))"
  by (simp add: ex_rising_rsi ex_rising_avg eps_def)

text \<open>
  C4, amended: per asset, at every date \<open>i\<close> with at least \<open>p\<close> prior observations (the
  \<open>p + 1\<close> prices ending at \<open>i\<close> present; \<open>p = 14\<close> in the strategy), the trend oscillator
  equals \<open>100 - 100/(1 + ratio)\<close>, where ratio is the \<open>p\<close>-day trailing average of positive
  price changes divided by the \<open>p\<close>-day trailing average magnitude of negative changes plus
  \<open>1e-6\<close>.
\<close>

theorem calculate_rsi_formula:
  assumes "0 < p" and "p \<le> i" and "i < length xs"
    and "list_all (\<lambda>c. c \<noteq> None) (take (Suc p) (drop (i - p) xs))"
  shows "calculate_rsi xs p ! i =
           Some (100 - 100 / (1 + avg_gain xs p i / (avg_loss xs p i + eps)))"
proof -
  have le: "(i - p) + Suc p \<le> length xs" using assms(2,3) by simp
  have "take (Suc p) (drop (i - p) xs) = map ((!) xs) [i - p..<i - p + Suc p]"
    by (rule take_drop_nth[OF le])
  then have "\<forall>t \<in> set [i - p..<i - p + Suc p]. xs ! t \<noteq> None"
    using assms(4) by (simp add: list_all_iff del: not_None_eq)
  then have "\<forall>t. i - p \<le> t \<and> t \<le> i \<longrightarrow> xs ! t \<noteq> None"
    using assms(2) by (auto simp del: not_None_eq)
  then show ?thesis by (rule calculate_rsi_nth[OF assms(1,2,3)])
qed

theorem calculate_rsi_formula_witness:
  "(0::nat) < 14 \<and> (14::nat) \<le> 14 \<and> 14 < length ex_rising \<and>
   list_all (\<lambda>c. c \<noteq> None) (take (Suc 14) (drop (14 - 14) ex_rising)) \<and>
   calculate_rsi ex_rising 14 ! 14 = Some (100 - 100 / (1 + 1 / (0 + eps)))"
proof -
  have a: "list_all (\<lambda>c. c \<noteq> None) (take (Suc 14) (drop (14 - 14) ex_rising))"
    by (simp add: ex_rising_def)
  have l: "14 < length ex_rising" by (simp add: ex_rising_def)
  show ?thesis
    using calculate_rsi_formula[of 14 14 ex_rising, OF _ _ l a] a l
    by (simp add: ex_rising_avg)
qed

section \<open>Properties of the Scorer\<close>

lemma std_skipna_nonneg:
  assumes "std_skipna xs = Some s"
  shows "0 \<le> s"
proof -
  let ?vs = "valid xs"
  let ?mu = "sum_list ?vs / real (length ?vs)"
  have n: "\<not> length ?vs < 2" and s: "s = sqrt (sum_list (map (\<lambda>v. (v - ?mu)\<^sup>2) ?vs) / real (length ?vs - 1))"
    using assms by (auto simp: std_skipna_def Let_def split: if_splits)
  have "0 \<le> sum_list (map (\<lambda>v. (v - ?mu)\<^sup>2) ?vs)" by (rule sum_list_nonneg) auto
  then have "0 \<le> sum_list (map (\<lambda>v. (v - ?mu)\<^sup>2) ?vs) / real (length ?vs - 1)"
    by (rule divide_nonneg_nonneg) simp
  then show ?thesis unfolding s by simp
qed

lemma shaped_nth: "shaped m n df \<Longrightarrow> j < m \<Longrightarrow> length (df ! j) = n"
  by (simp add: shaped_def list_all_length)

lemma zscore_nth:
  assumes "shaped m n df" "j < m" "i < n"
  shows "zscore n df ! j ! i = zscore_cell df i j"
proof -
  have lj: "length (df ! j) = n" by (rule shaped_nth[OF assms(1,2)])
  have m: "length df = m" using assms(1) by (simp add: shaped_def)
  let ?mean = "map (\<lambda>i. mean_skipna (row_of df i)) [0..<n]"
  let ?sd = "map (\<lambda>i. add_cell (std_skipna (row_of df i)) (Some eps)) [0..<n]"
  have "zscore n df ! j = map2 div_cell (map2 sub_cell (df ! j) ?mean) ?sd"
    using assms(2) m by (simp add: zscore_def Let_def)
  then have c: "zscore n df ! j ! i =
      div_cell (sub_cell (df ! j ! i) (mean_skipna (row_of df i)))
               (add_cell (std_skipna (row_of df i)) (Some eps))"
    using assms(3) lj by simp
  have nz: "s + eps \<noteq> 0" if "std_skipna (row_of df i) = Some s" for s
    using std_skipna_nonneg[OF that] by (simp add: eps_def add_nonneg_eq_0_iff)
  show ?thesis unfolding c zscore_cell_def
    using nz by (auto simp: div_cell_def sub_cell_def add_cell_def split: option.splits)
qed

lemma zscore_shaped: "shaped m n df \<Longrightarrow> shaped m n (zscore n df)"
  by (auto simp: shaped_def zscore_def Let_def list_all_iff)

lemma scale_shaped: "shaped m n df \<Longrightarrow> shaped m n (scale a df)"
  by (auto simp: shaped_def scale_def list_all_iff)

lemma neg_frame_shaped: "shaped m n df \<Longrightarrow> shaped m n (neg_frame df)"
  by (auto simp: shaped_def neg_frame_def list_all_iff)

lemma add_frame_shaped:
  assumes "shaped m n a" "shaped m n b"
  shows "shaped m n (add_frame a b)"
proof -
  have "length (map2 add_cell x y) = n" if "(x, y) \<in> set (zip a b)" for x y
  proof -
    have "x \<in> set a" "y \<in> set b" using that by (auto dest: set_zip_leftD set_zip_rightD)
    then show ?thesis using assms by (simp add: shaped_def list_all_iff)
  qed
  then show ?thesis using assms by (auto simp: shaped_def add_frame_def list_all_iff)
qed

lemma scale_nth:
  "shaped m n df \<Longrightarrow> j < m \<Longrightarrow> i < n \<Longrightarrow> scale a df ! j ! i = mul_cell (Some a) (df ! j ! i)"
  using shaped_nth[of m n df j] by (simp add: scale_def shaped_def)

lemma neg_frame_nth:
  "shaped m n df \<Longrightarrow> j < m \<Longrightarrow> i < n \<Longrightarrow> neg_frame df ! j ! i = neg_cell (df ! j ! i)"
  using shaped_nth[of m n df j] by (simp add: neg_frame_def shaped_def)

lemma add_frame_nth:
  "shaped m n a \<Longrightarrow> shaped m n b \<Longrightarrow> j < m \<Longrightarrow> i < n \<Longrightarrow>
   add_frame a b ! j ! i = add_cell (a ! j ! i) (b ! j ! i)"
  using shaped_nth[of m n a j] shaped_nth[of m n b j] by (simp add: add_frame_def shaped_def)

lemma weighted_sum_nth:
  assumes zm: "shaped m n zm" and zv: "shaped m n zv" and zr: "shaped m n zr"
    and zs: "shaped m n zs" and j: "j < m" and i: "i < n"
  shows "add_frame (add_frame (add_frame (scale (3 / 10) zm) (scale (3 / 10) (neg_frame zv)))
                              (scale (2 / 10) zr))
                   (scale (2 / 10) (neg_frame zs)) ! j ! i =
         weighted_sum_cell (zm ! j ! i) (zv ! j ! i) (zr ! j ! i) (zs ! j ! i)"
proof -
  have "add_frame (add_frame (add_frame (scale (3 / 10) zm) (scale (3 / 10) (neg_frame zv)))
                              (scale (2 / 10) zr))
                   (scale (2 / 10) (neg_frame zs)) ! j ! i =
        add_cell (add_cell (add_cell (mul_cell (Some (3 / 10)) (zm ! j ! i))
                                     (mul_cell (Some (3 / 10)) (neg_cell (zv ! j ! i))))
                           (mul_cell (Some (2 / 10)) (zr ! j ! i)))
                 (mul_cell (Some (2 / 10)) (neg_cell (zs ! j ! i)))"
  proof -
    note s1 = scale_shaped[OF zm, of "3 / 10"]
    note s2 = scale_shaped[OF neg_frame_shaped[OF zv], of "3 / 10"]
    note s3 = scale_shaped[OF zr, of "2 / 10"]
    note s4 = scale_shaped[OF neg_frame_shaped[OF zs], of "2 / 10"]
    note a1 = add_frame_shaped[OF s1 s2]
    note a2 = add_frame_shaped[OF a1 s3]
    show ?thesis
      by (simp only: add_frame_nth[OF a2 s4 j i] add_frame_nth[OF a1 s3 j i]
          add_frame_nth[OF s1 s2 j i] scale_nth[OF zm j i]
          scale_nth[OF neg_frame_shaped[OF zv] j i] scale_nth[OF zr j i]
          scale_nth[OF neg_frame_shaped[OF zs] j i] neg_frame_nth[OF zv j i]
          neg_frame_nth[OF zs j i])
  qed
  also have "\<dots> = weighted_sum_cell (zm ! j ! i) (zv ! j ! i) (zr ! j ! i) (zs ! j ! i)"
    by (simp add: weighted_sum_cell_def add_cell_def mul_cell_def neg_cell_def
        split: option.splits)
  finally show ?thesis .
qed

lemma weighted_sum_shaped:
  assumes "shaped m n zm" "shaped m n zv" "shaped m n zr" "shaped m n zs"
  shows "shaped m n (add_frame (add_frame (add_frame (scale (3 / 10) zm)
                                                      (scale (3 / 10) (neg_frame zv)))
                                           (scale (2 / 10) zr))
                                (scale (2 / 10) (neg_frame zs)))"
  using assms by (intro add_frame_shaped scale_shaped neg_frame_shaped)

text \<open>
  C7: for four factor tables over the same assets and dates, the composite score at each
  (date, asset) is \<open>0.3 * z_momentum + 0.3 * (- z_value) + 0.2 * z_rsi + 0.2 * (- z_volatility)\<close>
  of the per-day cross-sectional z-scores (missing when one of them is); a Regime Overlay,
  when present, is added cell by cell, not normalised.
\<close>

theorem composite_formula:
  assumes "shaped m n mom" and "shaped m n vol" and "shaped m n rsi" and "shaped m n val"
    and "case overlay of None \<Rightarrow> True | Some b \<Rightarrow> shaped m n b"
    and "i < n" and "j < m"
  shows "composite n mom vol rsi val overlay ! j ! i = composite_cell mom vol rsi val overlay i j"
proof -
  let ?score = "add_frame (add_frame (add_frame (scale (3 / 10) (zscore n mom))
                                                (scale (3 / 10) (neg_frame (zscore n val))))
                                     (scale (2 / 10) (zscore n rsi)))
                          (scale (2 / 10) (neg_frame (zscore n vol)))"
  note z = zscore_shaped[OF assms(1)] zscore_shaped[OF assms(4)] zscore_shaped[OF assms(3)]
    zscore_shaped[OF assms(2)]
  have base: "?score ! j ! i =
      weighted_sum_cell (zscore_cell mom i j) (zscore_cell val i j)
                        (zscore_cell rsi i j) (zscore_cell vol i j)"
    using weighted_sum_nth[OF z assms(7,6)]
    by (simp add: zscore_nth[OF assms(1,7,6)] zscore_nth[OF assms(2,7,6)]
        zscore_nth[OF assms(3,7,6)] zscore_nth[OF assms(4,7,6)])
  have sh: "shaped m n ?score" by (rule weighted_sum_shaped[OF z])
  show ?thesis
  proof (cases overlay)
    case None
    then show ?thesis using base by (simp add: composite_def composite_cell_def Let_def)
  next
    case (Some b)
    then have b: "shaped m n b" using assms(5) by simp
    have "add_frame ?score b ! j ! i = add_cell (?score ! j ! i) (b ! j ! i)"
      by (rule add_frame_nth[OF sh b assms(7,6)])
    then show ?thesis using Some base by (simp add: composite_def composite_cell_def Let_def)
  qed
qed

lemma ex_factor_zscore: "zscore_cell ex_factor 0 2 = Some (1 / (1 + eps))"
  by (simp add: zscore_cell_def ex_factor_def row_of_def cell_at_def mean_skipna_def
      std_skipna_def valid_def Let_def power2_eq_square)

theorem composite_formula_witness:
  "shaped 3 1 ex_factor \<and> shaped 3 1 [[Some 0], [Some 0], [Some (1 / 2)]] \<and>
   (0::nat) < 1 \<and> (2::nat) < 3 \<and>
   composite 1 ex_factor ex_factor ex_factor ex_factor
             (Some [[Some 0], [Some 0], [Some (1 / 2)]]) ! 2 ! 0 = Some (1 / 2)"
proof -
  have s: "shaped 3 1 ex_factor" by (simp add: shaped_def ex_factor_def)
  have b: "shaped 3 1 [[Some 0], [Some 0], [Some (1 / 2)]]" by (simp add: shaped_def)
  have o: "case Some [[Some 0], [Some 0], [Some (1 / 2)]] of None \<Rightarrow> True
           | Some b \<Rightarrow> shaped 3 1 b" using b by simp
  have c: "composite_cell ex_factor ex_factor ex_factor ex_factor
             (Some [[Some 0], [Some 0], [Some (1 / 2)]]) 0 2 = Some (1 / 2)"
    by (simp add: composite_cell_def ex_factor_zscore weighted_sum_cell_def add_cell_def Let_def)
  show ?thesis
    using composite_formula[OF s s s s o, of 0 2] s b c by simp
qed

section \<open>No lookahead\<close>

text \<open>Every column operation of the factor engine commutes with cutting the table to its first dates.\<close>

lemma ffill_from_take: "take n (ffill_from p xs) = ffill_from p (take n xs)"
proof (induction xs arbitrary: p n)
  case Nil then show ?case by simp
next
  case (Cons x xs)
  then show ?case by (cases n) (auto split: option.splits)
qed

lemma ffill_take: "take n (ffill xs) = ffill (take n xs)"
  by (simp add: ffill_def ffill_from_take)

lemma shift_nth:
  "i < length xs \<Longrightarrow> shift k xs ! i = (if i < k then None else xs ! (i - k))"
  by (simp add: shift_def nth_append)

lemma shift_take: "take n (shift k xs) = shift k (take n xs)"
proof (rule nth_equalityI)
  show "length (take n (shift k xs)) = length (shift k (take n xs))"
    by (simp add: length_shift)
next
  fix i assume "i < length (take n (shift k xs))"
  then have i: "i < n" "i < length xs" by (simp_all add: length_shift)
  then show "take n (shift k xs) ! i = shift k (take n xs) ! i"
    by (simp add: shift_nth)
qed

lemma take_upt_min: "take n [0..<L] = [0..<min n L]"
  by (cases "n \<le> L") (simp_all add: min_def)

lemma map2_take: "take n (map2 f xs ys) = map2 f (take n xs) (take n ys)"
  by (simp add: take_map take_zip)

lemma pct_change_take: "take n (pct_change k xs) = pct_change k (take n xs)"
  by (simp add: pct_change_def Let_def map2_take ffill_take shift_take)

lemma rolling_take: "take n (rolling w agg xs) = rolling w agg (take n xs)"
proof -
  have win: "take w (drop (Suc i - w) (take n xs)) = take w (drop (Suc i - w) xs)"
    if "i < n" "\<not> Suc i < w" for i
  proof -
    have "drop (Suc i - w) (take n xs) = take (n - (Suc i - w)) (drop (Suc i - w) xs)"
      by (simp add: drop_take)
    moreover have "w \<le> n - (Suc i - w)" using that by linarith
    ultimately show ?thesis by (simp add: min_def)
  qed
  have "take n (rolling w agg xs) =
        map (\<lambda>i. if w = 0 \<or> Suc i < w then None
               else (let win = take w (drop (Suc i - w) xs)
                     in if list_all (\<lambda>c. c \<noteq> None) win then agg (map the win) else None))
            [0..<min n (length xs)]"
    by (simp add: rolling_def take_map take_upt_min)
  also have "\<dots> = rolling w agg (take n xs)"
    unfolding rolling_def by (rule map_cong) (auto simp: win min.commute)
  finally show ?thesis .
qed

lemma diff_take: "take n (diff xs) = diff (take n xs)"
  by (simp add: diff_def map2_take shift_take)

lemma calculate_rsi_take: "take n (calculate_rsi xs p) = calculate_rsi (take n xs) p"
  unfolding calculate_rsi_def Let_def
  by (simp only: take_map take_zip rolling_take diff_take)

lemma map_take_map2:
  "map (take k) (map2 (map2 g) A B) = map2 (map2 g) (map (take k) A) (map (take k) B)"
  by (simp add: zip_map_map split_def take_map take_zip)

lemma calculate_factors_take:
  "calculate_factors (s\<lparr>sector_prices := truncate_frame k (sector_prices s)\<rparr>) =
     (case calculate_factors s of
        (mom, vol, rsi, val) \<Rightarrow>
          (map (take k) mom, map (take k) vol, map (take k) rsi, map (take k) val))"
  by (simp add: calculate_factors_def Let_def truncate_frame_def o_def zip_map_map zip_map1 zip_map2
      split_def take_map take_zip pct_change_take rolling_take calculate_rsi_take)

lemma cell_at_take: "i < k \<Longrightarrow> cell_at (take k c) i = cell_at c i"
  by (simp add: cell_at_def)

lemma row_of_take: "i < k \<Longrightarrow> row_of (map (take k) df) i = row_of df i"
  by (simp add: row_of_def cell_at_take)

lemma zscore_take:
  assumes "k \<le> n"
  shows "map (take k) (zscore n df) = zscore k (map (take k) df)"
proof -
  have m: "take k (map (\<lambda>i. mean_skipna (row_of df i)) [0..<n]) =
           map (\<lambda>i. mean_skipna (row_of (map (take k) df) i)) [0..<k]"
    using assms by (simp add: take_map take_upt_min min_def row_of_take)
  have s: "take k (map (\<lambda>i. add_cell (std_skipna (row_of df i)) (Some eps)) [0..<n]) =
           map (\<lambda>i. add_cell (std_skipna (row_of (map (take k) df) i)) (Some eps)) [0..<k]"
    using assms by (simp add: take_map take_upt_min min_def row_of_take)
  show ?thesis
    unfolding zscore_def Let_def map_map o_def map2_take m s ..
qed

lemma scale_take: "map (take k) (scale a df) = scale a (map (take k) df)"
  by (simp add: scale_def take_map)

lemma neg_frame_take: "map (take k) (neg_frame df) = neg_frame (map (take k) df)"
  by (simp add: neg_frame_def take_map)

lemma add_frame_take: "map (take k) (add_frame a b) = add_frame (map (take k) a) (map (take k) b)"
  unfolding add_frame_def by (rule map_take_map2)

lemma composite_take:
  assumes "k \<le> n"
  shows "map (take k) (composite n mom vol rsi val ov) =
         composite k (map (take k) mom) (map (take k) vol) (map (take k) rsi) (map (take k) val)
                   (map_option (map (take k)) ov)"
  by (cases ov)
     (simp_all add: composite_def Let_def add_frame_take scale_take neg_frame_take
        zscore_take[OF assms])

lemma reindex_take: "take k (reindex old col new) = reindex old col (take k new)"
  by (simp add: reindex_def take_map)

lemma map_of_map_snd:
  "map_of (map (\<lambda>p. (fst p, f (snd p))) ps) x = map_option f (map_of ps x)"
  by (induction ps) auto

lemma map_of_zip_map:
  "map_of (zip ks (map f vs)) x = map_option f (map_of (zip ks vs) x)"
  by (simp add: zip_map2 split_def map_of_map_snd)

lemma boost_take:
  "map (take k) (boost columns tag flag delta regime) =
   boost columns tag (take k flag) delta (map (take k) regime)"
  by (simp add: boost_def zip_map2 split_def take_map take_zip o_def if_distrib cong: if_cong)

lemma get_column_reindexed_take:
  "get_column (md\<lparr>findex := take k idx,
                     fdata := map (\<lambda>c. ffill (reindex old c (take k idx))) (fdata md)\<rparr>) name =
   map_sum id (take k)
     (get_column (md\<lparr>findex := idx, fdata := map (\<lambda>c. ffill (reindex old c idx)) (fdata md)\<rparr>) name)"
  by (simp add: get_column_def map_of_zip_map ffill_take reindex_take split: option.splits)

lemma get_macro_regime_take:
  "get_macro_regime (s\<lparr>sector_prices := truncate_frame k (sector_prices s)\<rparr>) =
     map_sum id (map_option (map (take k))) (get_macro_regime s)"
proof (cases "macro_data s")
  case None
  then show ?thesis by (simp add: get_macro_regime_def)
next
  case (Some md)
  show ?thesis
  proof (cases "distinct (findex md)")
    case False
    then show ?thesis using Some by (simp add: get_macro_regime_def)
  next
    case True
    let ?idx = "findex (sector_prices s)"
    let ?M = "md\<lparr>findex := ?idx, fdata := map (\<lambda>c. ffill (reindex (findex md) c ?idx)) (fdata md)\<rparr>"
    let ?Mk = "md\<lparr>findex := take k ?idx,
                  fdata := map (\<lambda>c. ffill (reindex (findex md) c (take k ?idx))) (fdata md)\<rparr>"
    have gc: "get_column ?Mk name = map_sum id (take k) (get_column ?M name)" for name
      by (rule get_column_reindexed_take)
    show ?thesis
    proof (cases "get_column ?M ''INR=X''")
      case (Inl e)
      then show ?thesis using Some True gc[of "''INR=X''"]
        by (simp add: get_macro_regime_def truncate_frame_def Let_def)
    next
      case usd: (Inr usd)
      show ?thesis
      proof (cases "get_column ?M ''CL=F''")
        case (Inl e)
        then show ?thesis using Some True usd gc[of "''INR=X''"] gc[of "''CL=F''"]
          by (simp add: get_macro_regime_def truncate_frame_def Let_def)
      next
        case crude: (Inr crude)
        show ?thesis using Some True usd crude gc[of "''INR=X''"] gc[of "''CL=F''"]
          by (simp add: get_macro_regime_def truncate_frame_def Let_def boost_take
              map2_take rolling_take o_def min.commute)
      qed
    qed
  qed
qed

lemma compute_scores_take:
  assumes "k \<le> length (findex (sector_prices s))"
  shows "compute_scores (s\<lparr>sector_prices := truncate_frame k (sector_prices s)\<rparr>) =
         map_sum id (map (take k)) (compute_scores s)"
proof -
  obtain mom vol rsi val where f: "calculate_factors s = (mom, vol, rsi, val)"
    by (cases "calculate_factors s") auto
  have l: "length (findex (sector_prices (s\<lparr>sector_prices := truncate_frame k (sector_prices s)\<rparr>))) = k"
    using assms by (simp add: truncate_frame_def)
  show ?thesis
    unfolding compute_scores_def calculate_factors_take get_macro_regime_take l f
    by (cases "get_macro_regime s") (simp_all add: composite_take[OF assms])
qed

lemma compute_scores_cong:
  assumes "sector_prices s1 = sector_prices s2"
    and "momentum_period s1 = momentum_period s2" and "volatility_period s1 = volatility_period s2"
    and "rsi_period s1 = rsi_period s2" and "value_period s1 = value_period s2"
    and "get_macro_regime s1 = get_macro_regime s2"
  shows "compute_scores s1 = compute_scores s2"
  unfolding compute_scores_def calculate_factors_def assms by (rule refl)

lemma filter_zip_split:
  "length xs = length ys \<Longrightarrow>
   filter (\<lambda>p. Q (fst p)) (zip xs ys) =
   zip (filter Q xs) (map snd (filter (\<lambda>p. Q (fst p)) (zip xs ys)))"
  by (induction xs ys rule: list_induct2) auto

lemma frame_upto_lookup:
  assumes wf: "wf_frame md" "wf_frame md'" and eq: "frame_upto d md = frame_upto d md'"
    and j: "j < length (fdata md)" and x: "\<not> date_lt d x"
  shows "map_of (zip (findex md) (fdata md ! j)) x = map_of (zip (findex md') (fdata md' ! j)) x"
proof -
  let ?Q = "\<lambda>x. \<not> date_lt d x"
  let ?P = "\<lambda>p. ?Q (fst p)"
  have i: "filter ?Q (findex md) = filter ?Q (findex md')"
    using eq by (simp add: frame_upto_def)
  have d: "map (\<lambda>c. map snd (filter ?P (zip (findex md) c))) (fdata md) =
           map (\<lambda>c. map snd (filter ?P (zip (findex md') c))) (fdata md')"
    using eq by (simp add: frame_upto_def)
  then have len: "length (fdata md) = length (fdata md')" by (rule map_eq_imp_length_eq)
  have "map (\<lambda>c. map snd (filter ?P (zip (findex md) c))) (fdata md) ! j =
        map (\<lambda>c. map snd (filter ?P (zip (findex md') c))) (fdata md') ! j"
    using d by simp
  then have c: "map snd (filter ?P (zip (findex md) (fdata md ! j))) =
             map snd (filter ?P (zip (findex md') (fdata md' ! j)))"
    using j len by simp
  have l: "length (findex md) = length (fdata md ! j)"
    using wf(1) j by (simp add: wf_frame_def list_all_length)
  have l': "length (findex md') = length (fdata md' ! j)"
    using wf(2) j len by (simp add: wf_frame_def list_all_length)
  have "filter ?P (zip (findex md) (fdata md ! j)) = filter ?P (zip (findex md') (fdata md' ! j))"
    using filter_zip_split[OF l, of ?Q] filter_zip_split[OF l', of ?Q] i c by simp
  then have e: "map_of (filter ?P (zip (findex md) (fdata md ! j))) x =
             map_of (filter ?P (zip (findex md') (fdata md' ! j))) x" by (rule arg_cong)
  have a: "map_of (filter ?P ps) x = map_of ps x" for ps :: "(date \<times> cell) list"
    using x by (induction ps) auto
  show ?thesis using e unfolding a .
qed

lemma get_macro_regime_cong:
  assumes sp: "sector_prices s1 = sector_prices s2"
    and wf: "wf_macro (macro_data s1)" "wf_macro (macro_data s2)"
    and eq: "map_option (frame_upto d) (macro_data s1) = map_option (frame_upto d) (macro_data s2)"
    and le: "\<forall>x \<in> set (findex (sector_prices s1)). \<not> date_lt d x"
  shows "get_macro_regime s1 = get_macro_regime s2"
proof (cases "macro_data s1")
  case None
  then have "macro_data s2 = None" using eq by simp
  then show ?thesis using None by (simp add: get_macro_regime_def)
next
  case (Some md)
  then obtain md' where md': "macro_data s2 = Some md'" and fe: "frame_upto d md = frame_upto d md'"
    using eq by (cases "macro_data s2") auto
  have w: "wf_frame md" "distinct (findex md)" "wf_frame md'" "distinct (findex md')"
    using wf Some md' by (simp_all add: wf_macro_def)
  let ?idx = "findex (sector_prices s1)"
  have cols: "fcolumns md = fcolumns md'" using fe by (simp add: frame_upto_def)
  have "map (\<lambda>c. map snd (filter (\<lambda>p. \<not> date_lt d (fst p)) (zip (findex md) c))) (fdata md) =
        map (\<lambda>c. map snd (filter (\<lambda>p. \<not> date_lt d (fst p)) (zip (findex md') c))) (fdata md')"
    using fe by (simp add: frame_upto_def)
  then have len: "length (fdata md) = length (fdata md')" by (rule map_eq_imp_length_eq)
  have data: "map (\<lambda>c. ffill (reindex (findex md) c ?idx)) (fdata md) =
              map (\<lambda>c. ffill (reindex (findex md') c ?idx)) (fdata md')"
  proof (rule nth_equalityI)
    show "length (map (\<lambda>c. ffill (reindex (findex md) c ?idx)) (fdata md)) =
          length (map (\<lambda>c. ffill (reindex (findex md') c ?idx)) (fdata md'))"
      using len by simp
  next
    fix j assume "j < length (map (\<lambda>c. ffill (reindex (findex md) c ?idx)) (fdata md))"
    then have j: "j < length (fdata md)" by simp
    have "reindex (findex md) (fdata md ! j) ?idx = reindex (findex md') (fdata md' ! j) ?idx"
      unfolding reindex_def
      by (rule map_cong[OF refl]) (use frame_upto_lookup[OF w(1,3) fe j] le in simp)
    then show "map (\<lambda>c. ffill (reindex (findex md) c ?idx)) (fdata md) ! j =
               map (\<lambda>c. ffill (reindex (findex md') c ?idx)) (fdata md') ! j"
      using j len by simp
  qed
  have M: "md\<lparr>findex := ?idx, fdata := map (\<lambda>c. ffill (reindex (findex md) c ?idx)) (fdata md)\<rparr> =
           md'\<lparr>findex := ?idx, fdata := map (\<lambda>c. ffill (reindex (findex md') c ?idx)) (fdata md')\<rparr>"
    using data cols by (cases md, cases md') simp
  show ?thesis
    unfolding get_macro_regime_def Some md' sp[symmetric] option.case Let_def M
    using w(2,4) by simp
qed

lemma date_lt_irrefl: "\<not> date_lt d d"
  by (simp add: date_lt_def)

lemma date_lt_asym: "date_lt a b \<Longrightarrow> \<not> date_lt b a"
  by (auto simp: date_lt_def)

lemma calendar_prefix_le:
  assumes "calendar idx" "T < length idx" "x \<in> set (take (Suc T) idx)"
  shows "\<not> date_lt (idx ! T) x"
proof -
  from assms(3) obtain q where q: "q < Suc T" "x = idx ! q"
    using assms(2) by (auto simp: in_set_conv_nth)
  show ?thesis
  proof (cases "q = T")
    case True then show ?thesis using q by (simp add: date_lt_irrefl)
  next
    case False
    then have "q < T" using q by simp
    then have "date_lt (idx ! q) (idx ! T)"
      using assms(1,2) by (simp add: calendar_def sorted_wrt_nth_less)
    then show ?thesis using q by (simp add: date_lt_asym)
  qed
qed

lemma date_lt_month_end_key:
  assumes "date_lt (month_end k) x" "valid_date x"
  shows "k < month_key x"
proof -
  obtain y m dd where x: "x = (y, m, dd)" by (cases x)
  have k: "k = 12 * (k div 12) + k mod 12" by simp
  have m12: "k mod 12 < 12" by simp
  from assms x have v: "1 \<le> m" "m \<le> 12" "dd \<le> days_in_month y m"
    by (simp_all add: valid_date_def)
  from assms(1) x consider
      (a) "k div 12 < y"
    | (b) "k div 12 = y" "k mod 12 + 1 < m"
    | (c) "k div 12 = y" "k mod 12 + 1 = m" "days_in_month (k div 12) (k mod 12 + 1) < dd"
    by (auto simp: date_lt_def month_end_def)
  then show ?thesis
  proof cases
    case a
    then have "12 * (k div 12) + 12 \<le> 12 * y" by simp
    then have "k < 12 * y" using k m12 by linarith
    then show ?thesis using x by (simp add: month_key_def)
  next
    case b
    then have "k < 12 * y + (m - 1)" using k by linarith
    then show ?thesis using x by (simp add: month_key_def)
  next
    case c
    then show ?thesis using v by simp
  qed
qed

lemma in_month_prefix:
  assumes cal: "calendar idx" and p: "p < length idx" and me: "is_month_end (idx ! p)"
  shows "in_month (month_key (idx ! p)) idx c =
         in_month (month_key (idx ! p)) (take (Suc p) idx) (take (Suc p) c)"
proof -
  let ?k = "month_key (idx ! p)"
  let ?P = "\<lambda>e :: date \<times> cell. month_key (fst e) = ?k"
  let ?Z = "zip idx c"
  have none: "filter ?P (drop (Suc p) ?Z) = []"
  proof -
    have "\<not> ?P e" if "e \<in> set (drop (Suc p) ?Z)" for e
    proof -
      have "e \<in> set (zip (drop (Suc p) idx) (drop (Suc p) c))" using that by (simp add: drop_zip)
      then have "fst e \<in> set (drop (Suc p) idx)"
        using set_zip_leftD[of "fst e" "snd e" "drop (Suc p) idx" "drop (Suc p) c"] by simp
      then obtain q where q: "q < length idx - Suc p" "fst e = idx ! (Suc p + q)"
        by (auto simp: in_set_conv_nth)
      then have lt: "date_lt (idx ! p) (idx ! (Suc p + q))"
        using cal by (simp add: calendar_def sorted_wrt_nth_less)
      have "valid_date (idx ! (Suc p + q))" using cal q by (simp add: calendar_def list_all_length)
      then have "?k < month_key (idx ! (Suc p + q))"
        using lt me date_lt_month_end_key[of ?k "idx ! (Suc p + q)"]
        by (simp add: is_month_end_def)
      then show ?thesis using q by simp
    qed
    then show ?thesis by (simp add: filter_empty_conv)
  qed
  have "filter ?P ?Z = filter ?P (take (Suc p) ?Z @ drop (Suc p) ?Z)" by simp
  also have "\<dots> = filter ?P (take (Suc p) ?Z)" unfolding filter_append none by simp
  finally show ?thesis by (simp add: in_month_def take_zip)
qed

lemma weights_loop_zero:
  "rows \<noteq> [] \<Longrightarrow> weights_loop 0 m rows = Inl ZeroDivisionError"
  by (cases rows) (auto simp: rebalance_row_def Let_def split: sum.splits)

lemma resample_nonempty:
  assumes "calendar idx" "idx \<noteq> []"
  shows "resample_ME_last idx df \<noteq> []"
proof -
  have "last idx \<in> set idx" using assms(2) by simp
  then have "month_key (hd idx) \<le> month_key (last idx)" by (rule calendar_hd[OF assms(1)])
  then show ?thesis using assms(2) by (simp add: resample_ME_last_def)
qed

lemma allocate_zero:
  "calendar idx \<Longrightarrow> idx \<noteq> [] \<Longrightarrow> allocate 0 idx columns scores = Inl ZeroDivisionError"
  using weights_loop_zero[OF resample_nonempty, of idx "length columns" scores]
  by (simp add: allocate_def Let_def)

lemma monthly_row_agree:
  assumes cal: "calendar idx" "calendar idx'"
    and pre: "take (Suc T) idx = take (Suc T) idx'"
    and sc: "map (take (Suc T)) S = map (take (Suc T)) S'"
    and i: "i \<le> T" "Suc i < length idx" "Suc i < length idx'"
    and g: "governing (take (Suc i) idx) = Some d"
  shows "map_of (resample_ME_last idx S) d = map_of (resample_ME_last idx' S') d"
proof -
  from governing_in_set[OF g] have din: "d \<in> set (take (Suc i) idx)" and me: "is_month_end d"
    by auto
  from din obtain p where p: "p < Suc i" "d = idx ! p"
    using i(2) by (auto simp: in_set_conv_nth)
  have pT: "Suc p \<le> Suc T" using p i(1) by simp
  have pl: "p < length idx" "p < length idx'" using p i by simp_all
  have "idx ! p = take (Suc T) idx ! p" using pT by simp
  also have "\<dots> = idx' ! p" unfolding pre using pT by simp
  finally have d': "d = idx' ! p" using p by simp
  have tk: "take (Suc p) idx = take (Suc p) idx'"
  proof -
    have "take (Suc p) idx = take (Suc p) (take (Suc T) idx)" using pT by (simp add: min_def)
    also have "\<dots> = take (Suc p) idx'" unfolding pre using pT by (simp add: min_def)
    finally show ?thesis .
  qed
  let ?k = "month_key d"
  let ?g = "\<lambda>c. last_valid (in_month ?k (take (Suc p) idx) c)"
  have a: "map (\<lambda>c. last_valid (in_month ?k idx c)) S = map (?g \<circ> take (Suc p)) S"
    using in_month_prefix[OF cal(1) pl(1)] me p by simp
  have b: "map (\<lambda>c. last_valid (in_month ?k idx' c)) S' = map (?g \<circ> take (Suc p)) S'"
    using in_month_prefix[OF cal(2) pl(2)] me d' tk by simp
  have t: "take (Suc p) c = take (Suc p) (take (Suc T) c)" for c :: "cell list"
    using pT by (simp add: min_def)
  have "map (?g \<circ> take (Suc p)) S = map (?g \<circ> take (Suc p)) (map (take (Suc T)) S)"
    using t by (simp add: o_def)
  also have "\<dots> = map (?g \<circ> take (Suc p)) (map (take (Suc T)) S')" unfolding sc ..
  also have "\<dots> = map (?g \<circ> take (Suc p)) S'" using t by (simp add: o_def)
  finally have c: "map (?g \<circ> take (Suc p)) S = map (?g \<circ> take (Suc p)) S'" .
  have "d \<in> set idx" using p pl by simp
  moreover have "d \<in> set idx'" using d' pl by simp
  ultimately show ?thesis
    using map_of_resample_calendar[OF cal(1), of d S] map_of_resample_calendar[OF cal(2), of d S']
      me a b c by simp
qed

lemma allocate_agree:
  assumes cal: "calendar idx" "calendar idx'"
    and pre: "take (Suc T) idx = take (Suc T) idx'"
    and sc: "map (take (Suc T)) S = map (take (Suc T)) S'"
    and T: "T < length idx"
  shows "map_sum id (held_upto (min (Suc (Suc T)) (min (length idx) (length idx'))))
                 (allocate K idx cols S) =
         map_sum id (held_upto (min (Suc (Suc T)) (min (length idx) (length idx'))))
                 (allocate K idx' cols S')"
proof (cases "K = 0")
  case True
  have "length (take (Suc T) idx') = Suc T" using T by (simp add: pre[symmetric])
  then have "idx' \<noteq> []" by auto
  moreover have "idx \<noteq> []" using T by auto
  ultimately show ?thesis using True cal by (simp add: allocate_zero)
next
  case False
  let ?N = "min (Suc (Suc T)) (min (length idx) (length idx'))"
  from allocate_nonzero[OF False] obtain W W' where
    W: "allocate K idx cols S = Inr W" and W': "allocate K idx' cols S' = Inr W'" by blast
  have "map (take ?N) (fdata W) = map (take ?N) (fdata W')"
  proof (rule nth_equalityI)
    show "length (map (take ?N) (fdata W)) = length (map (take ?N) (fdata W'))"
      using allocate_shape(3)[OF W] allocate_shape(3)[OF W'] by simp
  next
    fix j assume "j < length (map (take ?N) (fdata W))"
    then have j: "j < length cols" using allocate_shape(3)[OF W] by simp
    have lj: "length (fdata W ! j) = length idx" "length (fdata W' ! j) = length idx'"
      using allocate_shape(4)[OF W j] allocate_shape(4)[OF W' j] by simp_all
    have "take ?N (fdata W ! j) = take ?N (fdata W' ! j)"
    proof (rule nth_equalityI)
      show "length (take ?N (fdata W ! j)) = length (take ?N (fdata W' ! j))"
        using lj by simp
    next
      fix i assume "i < length (take ?N (fdata W ! j))"
      then have i: "i < Suc (Suc T)" "i < length idx" "i < length idx'" using lj by simp_all
      have "fdata W ! j ! i = fdata W' ! j ! i"
      proof (cases i)
        case 0
        then show ?thesis
          using allocate_cell_first[OF W j] allocate_cell_first[OF W' j] i by simp
      next
        case (Suc i')
        then have i': "i' \<le> T" "Suc i' < length idx" "Suc i' < length idx'" using i by simp_all
        have tk: "take (Suc i') idx = take (Suc i') idx'"
        proof -
          have "take (Suc i') idx = take (Suc i') (take (Suc T) idx)"
            using i'(1) by (simp add: min_def)
          also have "\<dots> = take (Suc i') idx'" unfolding pre using i'(1) by (simp add: min_def)
          finally show ?thesis .
        qed
        note c = allocate_cell[OF cal(1) W j i'(2)] allocate_cell[OF cal(2) W' j i'(3)]
        show ?thesis
        proof (cases "governing (take (Suc i') idx)")
          case None
          then show ?thesis using c tk Suc by simp
        next
          case (Some d)
          have "map_of (resample_ME_last idx S) d = map_of (resample_ME_last idx' S') d"
            by (rule monthly_row_agree[OF cal pre sc i' Some])
          then show ?thesis using c tk Suc Some by simp
        qed
      qed
      then show "take ?N (fdata W ! j) ! i = take ?N (fdata W' ! j) ! i"
        using i lj by simp
    qed
    then show "map (take ?N) (fdata W) ! j = map (take ?N) (fdata W') ! j"
      using j allocate_shape(3)[OF W] allocate_shape(3)[OF W'] by simp
  qed
  then show ?thesis using W W' by (simp add: held_upto_def)
qed

lemma get_signal_df_agree:
  assumes cal: "calendar (findex (sector_prices s))" "calendar (findex (sector_prices s'))"
    and pre: "truncate_frame (Suc T) (sector_prices s) = truncate_frame (Suc T) (sector_prices s')"
    and T: "T < length (findex (sector_prices s))"
    and per: "momentum_period s = momentum_period s'" "volatility_period s = volatility_period s'"
      "rsi_period s = rsi_period s'" "value_period s = value_period s'"
    and k: "top_k s = top_k s'"
    and wf: "wf_macro (macro_data s)" "wf_macro (macro_data s')"
    and mac: "map_option (frame_upto (findex (sector_prices s) ! T)) (macro_data s) =
              map_option (frame_upto (findex (sector_prices s) ! T)) (macro_data s')"
  shows "map_sum id (held_upto (min (Suc (Suc T))
           (min (length (findex (sector_prices s))) (length (findex (sector_prices s'))))))
           (get_signal_df s) =
         map_sum id (held_upto (min (Suc (Suc T))
           (min (length (findex (sector_prices s))) (length (findex (sector_prices s'))))))
           (get_signal_df s')"
proof -
  let ?idx = "findex (sector_prices s)" and ?idx' = "findex (sector_prices s')"
  let ?s1 = "s\<lparr>sector_prices := truncate_frame (Suc T) (sector_prices s)\<rparr>"
  let ?s2 = "s'\<lparr>sector_prices := truncate_frame (Suc T) (sector_prices s')\<rparr>"
  have tk: "take (Suc T) ?idx = take (Suc T) ?idx'"
    using arg_cong[OF pre, of findex] by (simp add: truncate_frame_def)
  have cols: "fcolumns (sector_prices s) = fcolumns (sector_prices s')"
    using arg_cong[OF pre, of fcolumns] by (simp add: truncate_frame_def)
  have "length (take (Suc T) ?idx') = Suc T" using T by (simp add: tk[symmetric])
  then have T': "T < length ?idx'" by simp
  have le: "\<forall>x \<in> set (findex (sector_prices ?s1)). \<not> date_lt (?idx ! T) x"
    using calendar_prefix_le[OF cal(1) T] by (simp add: truncate_frame_def)
  have "get_macro_regime ?s1 = get_macro_regime ?s2"
    by (rule get_macro_regime_cong[where d = "?idx ! T"]) (use pre wf mac le in simp_all)
  then have "compute_scores ?s1 = compute_scores ?s2"
    by (intro compute_scores_cong) (use pre per in simp_all)
  then have sc: "map_sum id (map (take (Suc T))) (compute_scores s) =
                 map_sum id (map (take (Suc T))) (compute_scores s')"
    using compute_scores_take[of "Suc T" s] compute_scores_take[of "Suc T" s'] T T' by simp
  show ?thesis
  proof (cases "compute_scores s")
    case (Inl e)
    then have "compute_scores s' = Inl e" using sc by (cases "compute_scores s'") simp_all
    then show ?thesis using Inl by (simp add: get_signal_df_def)
  next
    case (Inr S)
    then obtain S' where S': "compute_scores s' = Inr S'"
      and eq: "map (take (Suc T)) S = map (take (Suc T)) S'"
      using sc by (cases "compute_scores s'") simp_all
    show ?thesis
      using allocate_agree[OF cal tk eq T, of "top_k s" "fcolumns (sector_prices s)"] Inr S' k cols
      by (simp add: get_signal_df_def)
  qed
qed

lemma truncate_frame_ffill:
  "truncate_frame k (P\<lparr>fdata := map ffill (fdata P)\<rparr>) =
   (truncate_frame k P)\<lparr>fdata := map ffill (fdata (truncate_frame k P))\<rparr>"
  by (simp add: truncate_frame_def ffill_take)

lemma default_windows:
  "(SectorStrategy_init P macro k)
     \<lparr>momentum_period := 252, volatility_period := 126, rsi_period := 14,
      value_period := 252 * 5\<rparr> = SectorStrategy_init P macro k"
  by (simp add: SectorStrategy_init_def)

lemma ex_strategy_fields:
  "sector_prices ex_strategy = ex_panel" "macro_data ex_strategy = Some ex_macro"
  "top_k ex_strategy = 1" "momentum_period ex_strategy = 1" "volatility_period ex_strategy = 2"
  "rsi_period ex_strategy = 1" "value_period ex_strategy = 1"
  by (simp_all add: ex_strategy_def SectorStrategy_init_def ex_panel_def ffill_def)

lemma sqrt_sixteenth: "sqrt (1 / 16) = 1 / 4"
  by (rule real_sqrt_unique) (simp_all add: power2_eq_square)

lemma ex_strategy_factors:
  "calculate_factors ex_strategy =
    ([[None, Some (- (3 / 4)), Some (- (3 / 4)), Some (- (3 / 4))],
      [None, Some (- (1 / 2)), Some (- (1 / 2)), Some (- (1 / 2))],
      [None, Some (- (1 / 4)), Some (- (1 / 4)), Some (- (1 / 4))]],
     [[None, None, Some 0, Some 0], [None, None, Some 0, Some 0], [None, None, Some 0, Some 0]],
     [[Some 0, Some 0, Some 0, Some 0], [Some 0, Some 0, Some 0, Some 0],
      [Some 0, Some 0, Some 0, Some 0]],
     [[Some 0, Some 0, Some 0, Some 0], [Some 0, Some 0, Some 0, Some 0],
      [Some 0, Some 0, Some 0, Some 0]])"
  by (simp add: calculate_factors_def ex_strategy_fields ex_panel_def Let_def pct_change_def
      ffill_def shift_def rolling_def std_agg_def mean_agg_def calculate_rsi_def diff_def
      where_cell_def neg_cell_def eps_def add_cell_def sub_cell_def div_cell_def mul_cell_def
      power2_eq_square)

lemma ex_strategy_regime:
  "get_macro_regime ex_strategy =
     Inr (Some [[Some 0, Some 0, Some 0, Some 0], [Some 0, Some 0, Some 0, Some 0],
                [Some 0, Some 0, Some 0, Some 0]])"
  by (simp add: get_macro_regime_def ex_strategy_fields ex_panel_def ex_macro_def Let_def
      get_column_def reindex_def ffill_def rolling_def gt_cell_def boost_def contains_def)

text \<open>
  On 31 January the momentum z-scores are \<open>-1, 0, 1\<close> over \<open>1 + 4e-6\<close>; the other factors
  are equal across the assets, so their z-scores vanish.
\<close>

lemma ex_strategy_scores:
  "compute_scores ex_strategy =
     Inr [[None, None, Some (- (75000 / 250001)), Some (- (75000 / 250001))],
          [None, None, Some 0, Some 0],
          [None, None, Some (75000 / 250001), Some (75000 / 250001)]]"
  unfolding compute_scores_def ex_strategy_factors ex_strategy_regime
  by (simp add: ex_strategy_fields ex_panel_def composite_def zscore_def Let_def row_of_def
      cell_at_def mean_skipna_def std_skipna_def valid_def eps_def add_frame_def scale_def
      neg_frame_def neg_cell_def add_cell_def sub_cell_def div_cell_def mul_cell_def
      power2_eq_square sqrt_sixteenth upt_rec)

text \<open>Asset C, the best scored of January, is held in full on 1 February.\<close>

lemma ex_strategy_signal:
  "get_signal_df ex_strategy =
     Inr \<lparr>findex = [(2024,1,29), (2024,1,30), (2024,1,31), (2024,2,1)],
          fcolumns = [''A'', ''B'', ''C''],
          fdata = [[Some 0, Some 0, Some 0, Some 0],
                   [Some 0, Some 0, Some 0, Some 0],
                   [Some 0, Some 0, Some 0, Some 1]]\<rparr>"
  unfolding get_signal_df_def ex_strategy_scores
  by (simp add: ex_strategy_fields ex_panel_def allocate_def resample_ME_last_def month_key_def
      month_end_def days_in_month_def leap_year_def in_month_def last_valid_def
      rebalance_row_def nlargest_def reindex_weights_def fillna_def shift_def ffill_def Let_def
      valid_def del: not_None_eq)

text \<open>
  C6, no lookahead: two runs of the strategy, on price panels whose first \<open>T + 1\<close> trading
  days agree (dates, assets and prices) and on macro panels whose rows dated day \<open>T\<close> or
  earlier agree, end the same way: either both raise the same error or both return daily
  weights that agree on every date up to and including day \<open>T + 1\<close> (as far as both
  calendars reach). What the panels hold after day \<open>T\<close> does not matter. The strategy
  objects are the constructor's, for any setting of the four window attributes; the
  constructor's own setting (252, 126, 14 and 1260 days) is one of them.
\<close>

theorem no_lookahead:
  assumes "calendar (findex P)" and "calendar (findex P')"
    and "truncate_frame (Suc T) P = truncate_frame (Suc T) P'"
    and "T < length (findex P)"
    and "wf_macro macro" and "wf_macro macro'"
    and "map_option (frame_upto (findex P ! T)) macro = map_option (frame_upto (findex P ! T)) macro'"
  shows "map_sum id (held_upto (min (Suc (Suc T)) (min (length (findex P)) (length (findex P')))))
                 (get_signal_df ((SectorStrategy_init P macro k)
                    \<lparr>momentum_period := mp, volatility_period := vp, rsi_period := rp,
                     value_period := vl\<rparr>)) =
         map_sum id (held_upto (min (Suc (Suc T)) (min (length (findex P)) (length (findex P')))))
                 (get_signal_df ((SectorStrategy_init P' macro' k)
                    \<lparr>momentum_period := mp, volatility_period := vp, rsi_period := rp,
                     value_period := vl\<rparr>))"
proof -
  let ?s = "(SectorStrategy_init P macro k)
              \<lparr>momentum_period := mp, volatility_period := vp, rsi_period := rp,
               value_period := vl\<rparr>"
  let ?s' = "(SectorStrategy_init P' macro' k)
              \<lparr>momentum_period := mp, volatility_period := vp, rsi_period := rp,
               value_period := vl\<rparr>"
  have sp: "sector_prices ?s = P\<lparr>fdata := map ffill (fdata P)\<rparr>"
    "sector_prices ?s' = P'\<lparr>fdata := map ffill (fdata P')\<rparr>"
    by (simp_all add: SectorStrategy_init_def)
  have pre: "truncate_frame (Suc T) (sector_prices ?s) = truncate_frame (Suc T) (sector_prices ?s')"
    unfolding sp truncate_frame_ffill assms(3) ..
  have "map_sum id (held_upto (min (Suc (Suc T))
           (min (length (findex (sector_prices ?s))) (length (findex (sector_prices ?s'))))))
           (get_signal_df ?s) =
         map_sum id (held_upto (min (Suc (Suc T))
           (min (length (findex (sector_prices ?s))) (length (findex (sector_prices ?s'))))))
           (get_signal_df ?s')"
  proof (rule get_signal_df_agree[OF _ _ pre])
    show "calendar (findex (sector_prices ?s))" using assms(1) by (simp add: sp)
    show "calendar (findex (sector_prices ?s'))" using assms(2) by (simp add: sp)
    show "T < length (findex (sector_prices ?s))" using assms(4) by (simp add: sp)
    show "wf_macro (macro_data ?s)" using assms(5) by (simp add: SectorStrategy_init_def)
    show "wf_macro (macro_data ?s')" using assms(6) by (simp add: SectorStrategy_init_def)
    show "map_option (frame_upto (findex (sector_prices ?s) ! T)) (macro_data ?s) =
          map_option (frame_upto (findex (sector_prices ?s) ! T)) (macro_data ?s')"
      using assms(7) by (simp add: SectorStrategy_init_def)
  qed (simp_all add: SectorStrategy_init_def)
  then show ?thesis by (simp add: sp)
qed

theorem no_lookahead_witness:
  "calendar (findex ex_panel) \<and> calendar (findex ex_panel') \<and>
   truncate_frame (Suc 2) ex_panel = truncate_frame (Suc 2) ex_panel' \<and>
   ex_panel \<noteq> ex_panel' \<and> 2 < length (findex ex_panel) \<and>
   wf_macro (Some ex_macro) \<and> wf_macro (Some ex_macro') \<and> ex_macro \<noteq> ex_macro' \<and>
   map_option (frame_upto (findex ex_panel ! 2)) (Some ex_macro) =
   map_option (frame_upto (findex ex_panel ! 2)) (Some ex_macro') \<and>
   map_sum id (held_upto 4) (get_signal_df ex_strategy) =
     Inr [[Some 0, Some 0, Some 0, Some 0], [Some 0, Some 0, Some 0, Some 0],
          [Some 0, Some 0, Some 0, Some 1]] \<and>
   map_sum id (held_upto 4) (get_signal_df ex_strategy') =
     Inr [[Some 0, Some 0, Some 0, Some 0], [Some 0, Some 0, Some 0, Some 0],
          [Some 0, Some 0, Some 0, Some 1]]"
proof -
  have c: "calendar (findex ex_panel)" "calendar (findex ex_panel')"
    by (simp_all add: ex_panel_def ex_panel'_def calendar_def valid_date_def date_lt_def
        days_in_month_def leap_year_def)
  have t: "truncate_frame (Suc 2) ex_panel = truncate_frame (Suc 2) ex_panel'"
    by (simp add: ex_panel_def ex_panel'_def truncate_frame_def)
  have l: "2 < length (findex ex_panel)" by (simp add: ex_panel_def)
  have w: "wf_macro (Some ex_macro)" "wf_macro (Some ex_macro')"
    by (simp_all add: wf_macro_def wf_frame_def ex_macro_def ex_macro'_def)
  have n: "ex_panel \<noteq> ex_panel'" "ex_macro \<noteq> ex_macro'"
    by (simp_all add: ex_panel_def ex_panel'_def ex_macro_def ex_macro'_def)
  have m: "map_option (frame_upto (findex ex_panel ! 2)) (Some ex_macro) =
           map_option (frame_upto (findex ex_panel ! 2)) (Some ex_macro')"
    by (simp add: frame_upto_def ex_panel_def ex_macro_def ex_macro'_def date_lt_def)
  have N: "min (Suc (Suc 2)) (min (length (findex ex_panel)) (length (findex ex_panel'))) = 4"
    by (simp add: ex_panel_def ex_panel'_def)
  have r: "map_sum id (held_upto 4) (get_signal_df ex_strategy) =
     Inr [[Some 0, Some 0, Some 0, Some 0], [Some 0, Some 0, Some 0, Some 0],
          [Some 0, Some 0, Some 0, Some 1]]"
    by (simp add: ex_strategy_signal held_upto_def)
  have "map_sum id (held_upto 4) (get_signal_df ex_strategy) =
        map_sum id (held_upto 4) (get_signal_df ex_strategy')"
    using no_lookahead[OF c t l w m, of 1 1 2 1 1]
    unfolding N ex_strategy_def[symmetric] ex_strategy'_def[symmetric] .
  then show ?thesis using r c t l w n m by simp
qed

end
